(* ===== verification/Prelude.thy ===== *)
theory Prelude
  imports Complex_Main "HOL-Library.Multiset"
begin

text \<open>
  Shared vocabulary of the development: the fact collections the component
  theories feed, the names of the model's basic types, the error values the
  API client returns, and generic lemmas on lists and sums that several
  components use.
\<close>

section \<open>Fact collections\<close>

named_theorems model_defs
  "definitions of the model, unfolded when a concrete input is evaluated"

named_theorems run_simps
  "characteristic equations of loops and step functions of the model"

section \<open>Types of the model\<close>

text \<open>
  Go's \<open>int\<close> is 64 bits wide. The client's integers are token estimates
  (bounded by the length of the text received, far below \<open>2^63\<close>), the
  server's usage counts (not bounded by the code) and the difference of the
  two; they are modelled as unbounded \<open>int\<close>, which is Go's arithmetic except
  for a difference that would wrap past \<open>-2^63\<close>. A Go
  \<open>string\<close> is a sequence of bytes; it is modelled as \<open>string\<close>, a list of
  8-bit \<open>char\<close>s, so that \<open>length\<close> counts bytes as Go's \<open>len\<close> does.
  Durations in seconds (\<open>float64\<close>) are modelled as \<open>real\<close>.
\<close>

type_synonym go_int = int
type_synonym seconds = real

section \<open>Errors of the API client\<close>

text \<open>
  The three \<open>fmt.Errorf\<close> values of \<^verbatim>\<open>src/internal/api/api_client.go\<close>, each
  carrying the wrapped cause (as text) where the source wraps one.
\<close>

datatype api_error =
    StreamError string        \<comment> \<open>\<^verbatim>\<open>"stream error: %w"\<close>\<close>
  | ListModelsFailed string   \<comment> \<open>\<^verbatim>\<open>"failed to list models: %w"\<close>\<close>
  | NoModelsAvailable         \<comment> \<open>\<^verbatim>\<open>"no models available"\<close>\<close>

section \<open>Generic lemmas\<close>

lemma rev_dropWhile_rev_split:
  "rev (dropWhile P (rev xs)) @ rev (takeWhile P (rev xs)) = xs"
proof -
  have "takeWhile P (rev xs) @ dropWhile P (rev xs) = rev xs"
    by (rule takeWhile_dropWhile_id)
  then have "rev (takeWhile P (rev xs) @ dropWhile P (rev xs)) = xs"
    by simp
  then show ?thesis by (simp only: rev_append)
qed

lemma all_rev_takeWhile:
  "\<forall>x \<in> set (rev (takeWhile P xs)). P x"
  by (auto dest: set_takeWhileD)

lemma append_mem_shuffles: "xs @ ys \<in> shuffles xs ys"
  by (induction xs) (simp_all add: Cons_in_shuffles_leftI)

lemma sum_list_nonneg_int:
  "(\<forall>x \<in> set xs. (0::int) \<le> x) \<Longrightarrow> 0 \<le> sum_list xs"
  by (induction xs) auto

lemma sum_list_map_nonneg_int:
  "(\<And>x. (0::int) \<le> f x) \<Longrightarrow> 0 \<le> sum_list (map f xs)"
  by (induction xs) (auto intro: add_nonneg_nonneg)


lemma abs_sub_div_le_half:
  fixes R N P :: real
  assumes a: "2 * (R * P) \<le> 2 * N + P" and b: "2 * N \<le> 2 * (R * P) + P" and p: "0 < P"
  shows "\<bar>R - N / P\<bar> \<le> 1 / 2"
proof -
  have "R - N / P = (R * P - N) / P" using p by (simp add: field_simps)
  moreover have "\<bar>R * P - N\<bar> \<le> P / 2" unfolding abs_le_iff using a b by linarith
  ultimately have "\<bar>R - N / P\<bar> \<le> (P / 2) / P"
    using p by (simp add: divide_right_mono)
  also have "\<dots> = 1 / 2" using p by simp
  finally show ?thesis .
qed


lemma add_mod_small: "a mod m = 0 \<Longrightarrow> q < m \<Longrightarrow> (a + q) mod m = (q::nat)"
  by (subst mod_add_left_eq [symmetric]) simp

lemma div_range: "0 < k \<Longrightarrow> a * k \<le> r \<Longrightarrow> r < b * k \<Longrightarrow> a \<le> r div k \<and> r div k < (b::nat)"
  using div_le_mono [of "a * k" r k] by (simp add: div_less_iff_less_mult)

lemma mod_range: "c * m \<le> q \<Longrightarrow> q < c * m + m \<Longrightarrow> q mod m = q - c * (m::nat)"
proof -
  assume a: "c * m \<le> q" "q < c * m + m"
  then obtain d where d: "q = c * m + d" "d < m" by (metis add_less_cancel_left le_add_diff_inverse)
  then show ?thesis by simp
qed

lemma div_eq_bounds: "r div k = c \<Longrightarrow> 0 < k \<Longrightarrow> c * k \<le> r \<and> r < c * k + (k::nat)"
  by (metis div_mult_mod_eq add_less_cancel_left mod_less_divisor le_add1)


end
