(* ===== verification/GoUtf8.thy ===== *)
theory GoUtf8
  imports Prelude
begin

text \<open>
  UTF-8 as Go's \<open>unicode/utf8\<close> and \<open>unicode\<close> packages read it.
  \<open>decode_rune\<close> is \<open>utf8.DecodeRuneInString\<close>: the rune at the start of a byte
  string and its width, with \<open>RuneError\<close> (U+FFFD) of width 1 for every
  ill-formed sequence (a byte that cannot start a sequence, a sequence cut
  short, a second byte outside the range its first byte accepts, which rules
  out overlong forms, surrogates and values above U+10FFFF, or a later byte that
  is not a continuation byte). \<open>runes\<close> is the decoding a \<open>for range\<close> loop
  over a string performs: the runes in order, each with the bytes it was read
  from. \<open>unicode_is_space\<close> is \<open>unicode.IsSpace\<close>.
  The lemmas show that the bytes of the runes make up the string, that a byte
  below 0x80 is a rune of its own, and that a string splits into its runes
  independently on each side of a byte that is not a continuation byte, and
  that decoding and \<open>utf8_encode\<close> are inverse on valid sequences
  (\<open>decode_encode\<close>, \<open>decode_rune_bytes\<close>).
\<close>

section \<open>Definitions\<close>

definition byte :: "char \<Rightarrow> nat" where
  "byte c = of_char c"

definition rune_error :: nat where
  "rune_error = 65533"

definition is_cont :: "nat \<Rightarrow> bool" where
  "is_cont b \<longleftrightarrow> 128 \<le> b \<and> b \<le> 191"

text \<open>The length of the sequence a first byte starts, 0 where it starts none (table \<open>first\<close>).\<close>

definition utf8_size :: "nat \<Rightarrow> nat" where
  "utf8_size x =
     (if x < 128 then 1 else if x < 194 then 0 else if x < 224 then 2
      else if x < 240 then 3 else if x < 245 then 4 else 0)"

text \<open>The range of second bytes a first byte accepts (\<open>acceptRanges\<close>).\<close>

definition utf8_lo :: "nat \<Rightarrow> nat" where
  "utf8_lo x = (if x = 224 then 160 else if x = 240 then 144 else 128)"

definition utf8_hi :: "nat \<Rightarrow> nat" where
  "utf8_hi x = (if x = 237 then 159 else if x = 244 then 143 else 191)"

definition decode_rune :: "string \<Rightarrow> nat \<times> nat" where
  "decode_rune s =
     (let n = length s; x = byte (s ! 0); sz = utf8_size x; b = (\<lambda>i. byte (s ! i))
      in if n = 0 then (rune_error, 0)
         else if x < 128 then (x, 1)
         else if sz = 0 \<or> n < sz then (rune_error, 1)
         else if b 1 < utf8_lo x \<or> utf8_hi x < b 1 then (rune_error, 1)
         else if sz = 2 then ((x mod 32) * 64 + b 1 mod 64, 2)
         else if \<not> is_cont (b 2) then (rune_error, 1)
         else if sz = 3 then ((x mod 16) * 4096 + (b 1 mod 64) * 64 + b 2 mod 64, 3)
         else if \<not> is_cont (b 3) then (rune_error, 1)
         else ((x mod 8) * 262144 + (b 1 mod 64) * 4096 + (b 2 mod 64) * 64 + b 3 mod 64, 4))"

function runes :: "string \<Rightarrow> (nat \<times> string) list" where
  "runes s =
     (if s = [] then []
      else (fst (decode_rune s), take (snd (decode_rune s)) s) # runes (drop (snd (decode_rune s)) s))"
  by pat_completeness auto
termination
  by (relation "measure length") (auto simp: decode_rune_def Let_def)

declare runes.simps [simp del]

text \<open>\<open>unicode.IsSpace\<close>: the Latin-1 spaces, then the \<open>White_Space\<close> table.\<close>

definition unicode_is_space :: "nat \<Rightarrow> bool" where
  "unicode_is_space r \<longleftrightarrow>
     (if r \<le> 255 then (9 \<le> r \<and> r \<le> 13) \<or> r = 32 \<or> r = 133 \<or> r = 160
      else r = 5760 \<or> (8192 \<le> r \<and> r \<le> 8202) \<or> r = 8232 \<or> r = 8233 \<or> r = 8239 \<or>
           r = 8287 \<or> r = 12288)"

definition rune_space :: "nat \<times> string \<Rightarrow> bool" where
  "rune_space rb \<longleftrightarrow> unicode_is_space (fst rb)"

text \<open>
  \<open>utf8.EncodeRune\<close>: the UTF-8 bytes of a rune; a surrogate or a value above
  U+10FFFF is encoded as \<open>RuneError\<close>.
\<close>

definition valid_rune :: "nat \<Rightarrow> bool" where
  "valid_rune r \<longleftrightarrow> r < 1114112 \<and> \<not> (55296 \<le> r \<and> r \<le> 57343)"

definition utf8_encode :: "nat \<Rightarrow> string" where
  "utf8_encode r =
     (if r < 128 then [char_of r]
      else if r < 2048 then [char_of (192 + r div 64), char_of (128 + r mod 64)]
      else if \<not> valid_rune r then [char_of (239::nat), char_of (191::nat), char_of (189::nat)]
      else if r < 65536 then
        [char_of (224 + r div 4096), char_of (128 + r div 64 mod 64), char_of (128 + r mod 64)]
      else [char_of (240 + r div 262144), char_of (128 + r div 4096 mod 64),
            char_of (128 + r div 64 mod 64), char_of (128 + r mod 64)])"

declare byte_def [model_defs] rune_error_def [model_defs] is_cont_def [model_defs]
  utf8_size_def [model_defs] utf8_lo_def [model_defs] utf8_hi_def [model_defs]
  decode_rune_def [model_defs] runes.simps [model_defs] unicode_is_space_def [model_defs]
  rune_space_def [model_defs]

section \<open>Lemmas\<close>

lemma utf8_size_cases:
  "utf8_size x = 0 \<or> utf8_size x = 1 \<or> utf8_size x = 2 \<or> utf8_size x = 3 \<or> utf8_size x = 4"
  by (simp add: utf8_size_def)

lemma utf8_size_high: "128 \<le> x \<Longrightarrow> utf8_size x \<noteq> 1"
  by (simp add: utf8_size_def)

lemma decode_rune_width:
  "s \<noteq> [] \<Longrightarrow> 1 \<le> snd (decode_rune s) \<and> snd (decode_rune s) \<le> length s"
proof -
  assume s: "s \<noteq> []"
  let ?sz = "utf8_size (byte (s ! 0))"
  have "snd (decode_rune s) = 1 \<or> (snd (decode_rune s) = ?sz \<and> ?sz \<le> length s)"
    using s utf8_size_cases [of "byte (s ! 0)"] utf8_size_high [of "byte (s ! 0)"]
    by (auto simp: decode_rune_def Let_def not_less)
  moreover have "1 \<le> length s" using s by (cases s) auto
  moreover have "snd (decode_rune s) \<noteq> 0" using s by (simp add: decode_rune_def Let_def)
  ultimately show ?thesis by linarith
qed

lemma runes_Nil [simp]: "runes [] = []"
  by (simp add: runes.simps)

lemma runes_nonempty:
  "s \<noteq> [] \<Longrightarrow> runes s = (fst (decode_rune s), take (snd (decode_rune s)) s) #
                          runes (drop (snd (decode_rune s)) s)"
  by (subst runes.simps) simp

lemma concat_runes: "concat (map snd (runes s)) = s"
proof (induction s rule: runes.induct)
  case (1 s)
  show ?case
  proof (cases "s = []")
    case False
    with 1 show ?thesis by (simp add: runes_nonempty)
  qed simp
qed

lemma runes_bytes_nonempty: "rb \<in> set (runes s) \<Longrightarrow> snd rb \<noteq> []"
proof (induction s rule: runes.induct)
  case (1 s)
  show ?case
  proof (cases "s = []")
    case False
    with 1 decode_rune_width [OF False] show ?thesis
      by (auto simp: runes_nonempty [OF False])
  qed (use 1 in simp)
qed

lemma decode_rune_ascii: "byte c < 128 \<Longrightarrow> decode_rune (c # s) = (byte c, 1)"
  by (simp add: decode_rune_def)

lemma runes_ascii_Cons: "byte c < 128 \<Longrightarrow> runes (c # s) = (byte c, [c]) # runes s"
  by (simp add: runes_nonempty decode_rune_ascii)


lemma utf8_lo_hi: "128 \<le> utf8_lo x \<and> utf8_hi x \<le> 191"
  by (simp add: utf8_lo_def utf8_hi_def)

lemma utf8_size_le4: "utf8_size x \<le> 4"
  by (simp add: utf8_size_def)

lemma decode_rune_err_b1:
  "128 \<le> byte c \<Longrightarrow> byte y < utf8_lo (byte c) \<or> utf8_hi (byte c) < byte y \<Longrightarrow>
   decode_rune (c # y # rest) = (rune_error, 1)"
  by (simp add: decode_rune_def Let_def)

lemma decode_rune_err_b2:
  "128 \<le> byte c \<Longrightarrow> 3 \<le> utf8_size (byte c) \<Longrightarrow> \<not> is_cont (byte e) \<Longrightarrow>
   decode_rune (c # d # e # rest) = (rune_error, 1)"
  by (simp add: decode_rune_def Let_def)

lemma decode_rune_err_b3:
  "128 \<le> byte c \<Longrightarrow> utf8_size (byte c) = 4 \<Longrightarrow> \<not> is_cont (byte f) \<Longrightarrow>
   decode_rune (c # d # e # f # rest) = (rune_error, 1)"
  by (simp add: decode_rune_def Let_def)

lemma decode_rune_short:
  "128 \<le> byte c \<Longrightarrow> length (c # s) < utf8_size (byte c) \<Longrightarrow> decode_rune (c # s) = (rune_error, 1)"
  by (simp add: decode_rune_def Let_def)


lemma decode_rune_long:
  assumes len: "utf8_size (byte c) \<le> length (c # cs)"
  shows "decode_rune (c # cs @ ys) = decode_rune (c # cs)"
proof -
  consider "byte c < 128" | "128 \<le> byte c" "utf8_size (byte c) = 0"
    | "128 \<le> byte c" "utf8_size (byte c) = 2" | "128 \<le> byte c" "utf8_size (byte c) = 3"
    | "128 \<le> byte c" "utf8_size (byte c) = 4"
    using utf8_size_cases [of "byte c"] utf8_size_high [of "byte c"] by linarith
  then show ?thesis
  proof cases
    case 1
    then show ?thesis by (simp add: decode_rune_ascii)
  next
    case 2
    then show ?thesis by (simp add: decode_rune_def)
  next
    case 3
    with len obtain d cs' where "cs = d # cs'" by (cases cs) auto
    with 3 show ?thesis by (simp add: decode_rune_def Let_def)
  next
    case 4
    with len obtain d e cs' where "cs = d # e # cs'" by (cases cs; cases "tl cs") auto
    with 4 show ?thesis by (simp add: decode_rune_def Let_def)
  next
    case 5
    with len obtain d e f cs' where "cs = d # e # f # cs'"
      by (cases cs; cases "tl cs"; cases "tl (tl cs)") auto
    with 5 show ?thesis by (simp add: decode_rune_def Let_def)
  qed
qed


lemma decode_rune_append:
  assumes xs: "xs \<noteq> []" and ys: "ys = [] \<or> \<not> is_cont (byte (hd ys))"
  shows "decode_rune (xs @ ys) = decode_rune xs"
proof (cases ys)
  case Nil
  then show ?thesis by simp
next
  case (Cons y ys')
  with ys have y: "\<not> is_cont (byte y)" by simp
  obtain c cs where c: "xs = c # cs" using xs by (cases xs) auto
  show ?thesis
  proof (cases "byte c < 128")
    case True
    with c show ?thesis by (simp add: decode_rune_ascii)
  next
    case high: False
    show ?thesis
    proof (cases "utf8_size (byte c) \<le> length xs")
      case True
      with c show ?thesis by (simp add: decode_rune_long)
    next
      case short: False
      then have dx: "decode_rune xs = (rune_error, 1)"
        using high c by (simp add: decode_rune_short)
      have le4: "utf8_size (byte c) \<le> 4" by (rule utf8_size_le4)
      have lh: "128 \<le> utf8_lo (byte c) \<and> utf8_hi (byte c) \<le> 191" by (rule utf8_lo_hi)
      have "decode_rune (c # cs @ y # ys') = (rune_error, 1)"
      proof (cases "length (c # cs @ y # ys') < utf8_size (byte c)")
        case True
        with high show ?thesis by (simp add: decode_rune_short)
      next
        case False
        consider "cs = []" | d where "cs = [d]" | d e where "cs = [d, e]"
          using short le4 c by (cases cs; cases "tl cs"; cases "tl (tl cs)") auto
        then show ?thesis
        proof cases
          case 1
          have "byte y < utf8_lo (byte c) \<or> utf8_hi (byte c) < byte y"
            using y lh by (auto simp: is_cont_def)
          with 1 high show ?thesis by (simp add: decode_rune_err_b1)
        next
          case 2
          with short c have "3 \<le> utf8_size (byte c)" by simp
          with 2 high y show ?thesis by (simp add: decode_rune_err_b2)
        next
          case 3
          with short c le4 have "utf8_size (byte c) = 4" by simp
          with 3 high y show ?thesis by (simp add: decode_rune_err_b3)
        qed
      qed
      with dx c Cons show ?thesis by simp
    qed
  qed
qed

lemma runes_append:
  "ys = [] \<or> \<not> is_cont (byte (hd ys)) \<Longrightarrow> runes (xs @ ys) = runes xs @ runes ys"
proof (induction xs rule: runes.induct)
  case (1 xs)
  show ?case
  proof (cases "xs = []")
    case False
    let ?w = "snd (decode_rune xs)"
    have d: "decode_rune (xs @ ys) = decode_rune xs" using False "1.prems" by (rule decode_rune_append)
    have w: "?w \<le> length xs" using decode_rune_width [OF False] by simp
    have "runes (xs @ ys) = (fst (decode_rune xs), take ?w xs) # runes (drop ?w xs @ ys)"
      using False w by (simp add: runes_nonempty [of "xs @ ys"] d)
    with False 1 show ?thesis by (simp add: runes_nonempty [OF False])
  qed simp
qed

lemma runes_drop_concat: "runes (concat (map snd (drop k (runes s)))) = drop k (runes s)"
proof (induction s arbitrary: k rule: runes.induct)
  case (1 s)
  show ?case
  proof (cases "s = []")
    case False
    show ?thesis
    proof (cases k)
      case 0
      then show ?thesis by (simp add: concat_runes)
    next
      case (Suc k')
      with False 1 show ?thesis by (simp add: runes_nonempty [OF False])
    qed
  qed simp
qed

lemma decode_rune_space_lead:
  "s \<noteq> [] \<Longrightarrow> unicode_is_space (fst (decode_rune s)) \<Longrightarrow> \<not> is_cont (byte (hd s))"
  by (cases s) (auto simp: decode_rune_def Let_def utf8_size_def is_cont_def unicode_is_space_def
      rune_error_def)

lemma runes_space_lead:
  "rb \<in> set (runes s) \<Longrightarrow> rune_space rb \<Longrightarrow> \<not> is_cont (byte (hd (snd rb)))"
proof (induction s rule: runes.induct)
  case (1 s)
  show ?case
  proof (cases "s = []")
    case False
    have w: "1 \<le> snd (decode_rune s)" using decode_rune_width [OF False] by simp
    show ?thesis
    proof (cases "rb = (fst (decode_rune s), take (snd (decode_rune s)) s)")
      case True
      with "1.prems" have "unicode_is_space (fst (decode_rune s))" by (simp add: rune_space_def)
      with False have "\<not> is_cont (byte (hd s))" by (rule decode_rune_space_lead)
      with True w False show ?thesis by (cases s) auto
    next
      case other: False
      with "1.prems" False have "rb \<in> set (runes (drop (snd (decode_rune s)) s))"
        by (simp add: runes_nonempty [OF False])
      with 1 False show ?thesis by blast
    qed
  qed (use 1 in simp)
qed


lemma decode_space_bytes:
  assumes s: "s \<noteq> []" and sp: "unicode_is_space (fst (decode_rune s))"
    and c: "c \<in> set (take (snd (decode_rune s)) s)"
  shows "128 \<le> byte c \<or> unicode_is_space (byte c)"
proof -
  obtain c0 cs where s0: "s = c0 # cs" using s by (cases s) auto
  show ?thesis
  proof (cases "byte c0 < 128")
    case True
    with s0 sp c show ?thesis by (simp add: decode_rune_ascii)
  next
    case high: False
    have lh: "128 \<le> utf8_lo (byte c0)" using utf8_lo_hi by blast
    consider "utf8_size (byte c0) = 0" | "utf8_size (byte c0) = 2" | "utf8_size (byte c0) = 3"
      | "utf8_size (byte c0) = 4"
      using utf8_size_cases [of "byte c0"] utf8_size_high [of "byte c0"] high by linarith
    then show ?thesis
    proof cases
      case 1
      with s0 high sp show ?thesis
        by (simp add: decode_rune_def unicode_is_space_def rune_error_def)
    next
      case 2
      show ?thesis
      proof (cases cs)
        case Nil
        with s0 high 2 sp show ?thesis
          by (simp add: decode_rune_def unicode_is_space_def rune_error_def)
      next
        case (Cons d cs')
        with s0 high 2 sp c lh show ?thesis
          by (auto simp: decode_rune_def Let_def unicode_is_space_def rune_error_def split: if_splits)
      qed
    next
      case 3
      show ?thesis
      proof (cases "length cs < 2")
        case True
        with s0 high 3 sp show ?thesis
          by (simp add: decode_rune_def unicode_is_space_def rune_error_def)
      next
        case False
        then obtain d e cs' where "cs = d # e # cs'" by (cases cs; cases "tl cs") auto
        with s0 high 3 sp c lh show ?thesis
          by (auto simp: decode_rune_def Let_def unicode_is_space_def rune_error_def is_cont_def
              split: if_splits)
      qed
    next
      case 4
      show ?thesis
      proof (cases "length cs < 3")
        case True
        with s0 high 4 sp show ?thesis
          by (simp add: decode_rune_def unicode_is_space_def rune_error_def)
      next
        case False
        then obtain d e f cs' where "cs = d # e # f # cs'"
          by (cases cs; cases "tl cs"; cases "tl (tl cs)") auto
        with s0 high 4 sp c lh show ?thesis
          by (auto simp: decode_rune_def Let_def unicode_is_space_def rune_error_def is_cont_def
              split: if_splits)
      qed
    qed
  qed
qed

lemma runes_space_bytes:
  "rb \<in> set (runes s) \<Longrightarrow> rune_space rb \<Longrightarrow> c \<in> set (snd rb) \<Longrightarrow>
   128 \<le> byte c \<or> unicode_is_space (byte c)"
proof (induction s rule: runes.induct)
  case (1 s)
  show ?case
  proof (cases "s = []")
    case False
    show ?thesis
    proof (cases "rb = (fst (decode_rune s), take (snd (decode_rune s)) s)")
      case True
      with "1.prems" show ?thesis using decode_space_bytes [OF False, of c] by (simp add: rune_space_def)
    next
      case other: False
      with "1.prems" False have "rb \<in> set (runes (drop (snd (decode_rune s)) s))"
        by (simp add: runes_nonempty [OF False])
      with 1 False show ?thesis by blast
    qed
  qed (use 1 in simp)
qed


lemma byte_char_of: "n < 256 \<Longrightarrow> byte (char_of n) = n"
  by (simp add: byte_def of_char_of)

lemma decode_encode_1: "r < 128 \<Longrightarrow> decode_rune (utf8_encode r @ ys) = (r, 1)"
  by (simp add: utf8_encode_def decode_rune_ascii byte_char_of)


lemma decode_encode_2:
  assumes r: "128 \<le> r" "r < 2048"
  shows "decode_rune (utf8_encode r @ ys) = (r, 2)"
proof -
  let ?x = "192 + r div 64" and ?b = "128 + r mod 64"
  have q: "r div 64 < 32" using r by (simp add: div_less_iff_less_mult)
  have "2 \<le> r div 64" using div_le_mono [OF r(1), of 64] by simp
  then have x: "194 \<le> ?x" "?x < 224" using q by simp_all
  have sz: "utf8_size ?x = 2" using x by (simp add: utf8_size_def)
  have lh: "utf8_lo ?x = 128" "utf8_hi ?x = 191" using x by (simp_all add: utf8_lo_def utf8_hi_def)
  have xm: "?x mod 32 = r div 64" using q by (simp add: add_mod_small)
  have bm: "?b mod 64 = r mod 64" by (simp add: add_mod_small)
  have enc: "utf8_encode r = [char_of ?x, char_of ?b]" using r by (simp add: utf8_encode_def)
  have v: "(r div 64) * 64 + r mod 64 = r" by simp
  have bx: "byte (char_of ?x) = ?x" using x by (simp add: byte_char_of)
  have bb: "byte (char_of ?b) = ?b" by (simp add: byte_char_of)
  show ?thesis using x sz lh
    by (simp add: enc decode_rune_def Let_def bx bb xm bm v)
qed


lemma div_mod_split_3: "(r div 4096) * 4096 + (r div 64 mod 64) * 64 + r mod 64 = (r::nat)"
proof -
  have "r mod 4096 = 64 * (r div 64 mod 64) + r mod 64"
    using mod_mult2_eq [of r 64 64] by simp
  then show ?thesis using div_mult_mod_eq [of r 4096] by linarith
qed

lemma hi3: "r div 4096 = 13 \<Longrightarrow> \<not> (55296 \<le> r \<and> r \<le> 57343) \<Longrightarrow> r div 64 mod 64 < (32::nat)"
proof -
  assume d: "r div 4096 = 13" and ns: "\<not> (55296 \<le> r \<and> r \<le> 57343)"
  from div_eq_bounds [OF d] have "53248 \<le> r" "r < 57344" by simp_all
  with ns have "r < 55296" by simp
  with \<open>53248 \<le> r\<close> have "832 \<le> r div 64 \<and> r div 64 < 864"
    using div_range [of 64 832 r 864] by simp
  then show ?thesis by (simp add: mod_range [of 13 64]) linarith
qed

lemma lo4: "65536 \<le> r \<Longrightarrow> r < (262144::nat) \<Longrightarrow> 16 \<le> r div 4096 mod 64"
proof -
  assume "65536 \<le> r" "r < 262144"
  then have "16 \<le> r div 4096 \<and> r div 4096 < 64" using div_range [of 4096 16 r 64] by simp
  then show ?thesis by simp
qed

lemma hi4: "1048576 \<le> r \<Longrightarrow> r < (1114112::nat) \<Longrightarrow> r div 4096 mod 64 < 16"
proof -
  assume "1048576 \<le> r" "r < 1114112"
  then have "256 \<le> r div 4096 \<and> r div 4096 < 272" using div_range [of 4096 256 r 272] by simp
  then show ?thesis by (simp add: mod_range [of 4 64]) linarith
qed

lemma decode_encode_3:
  assumes r: "2048 \<le> r" "r < 65536" and v: "valid_rune r"
  shows "decode_rune (utf8_encode r @ ys) = (r, 3)"
proof -
  let ?x = "224 + r div 4096" and ?b1 = "128 + r div 64 mod 64" and ?b2 = "128 + r mod 64"
  have q: "r div 4096 < 16" using r by (simp add: div_less_iff_less_mult)
  then have x: "224 \<le> ?x" "?x < 240" by simp_all
  have sz: "utf8_size ?x = 3" using x by (simp add: utf8_size_def)
  have ns: "\<not> (55296 \<le> r \<and> r \<le> 57343)" using v by (simp add: valid_rune_def)
  have lo: "utf8_lo ?x \<le> ?b1"
  proof (cases "r < 4096")
    case True
    then have "32 \<le> r div 64 \<and> r div 64 < 64" using r div_range [of 64 32 r 64] by simp
    with True show ?thesis by (simp add: utf8_lo_def)
  next
    case False
    then have "1 \<le> r div 4096" using div_le_mono [of 4096 r 4096] by simp
    with q show ?thesis by (simp add: utf8_lo_def)
  qed
  have hi: "?b1 \<le> utf8_hi ?x"
  proof (cases "r div 4096 = 13")
    case True
    then have "r div 64 mod 64 < 32" using ns by (rule hi3)
    with True show ?thesis by (simp add: utf8_hi_def)
  next
    case False
    with q show ?thesis by (simp add: utf8_hi_def)
  qed
  have xm: "?x mod 16 = r div 4096" using q by (simp add: add_mod_small)
  have b1m: "?b1 mod 64 = r div 64 mod 64" by (simp add: add_mod_small)
  have b2m: "?b2 mod 64 = r mod 64" by (simp add: add_mod_small)
  have enc: "utf8_encode r = [char_of ?x, char_of ?b1, char_of ?b2]"
    using r v by (simp add: utf8_encode_def)
  have bx: "byte (char_of ?x) = ?x" using x by (simp add: byte_char_of)
  have bb1: "byte (char_of ?b1) = ?b1" by (simp add: byte_char_of)
  have bb2: "byte (char_of ?b2) = ?b2" by (simp add: byte_char_of)
  have c2: "is_cont ?b2" by (simp add: is_cont_def)
  have val: "(r div 4096) * 4096 + (r div 64 mod 64) * 64 + r mod 64 = r" by (rule div_mod_split_3)
  show ?thesis using x sz lo hi c2
    by (simp add: enc decode_rune_def Let_def bx bb1 bb2 xm b1m b2m val not_less)
qed


lemma div_mod_split_4:
  "(r div 262144) * 262144 + (r div 4096 mod 64) * 4096 + (r div 64 mod 64) * 64 + r mod 64 = (r::nat)"
proof -
  have "r mod 262144 = 4096 * (r div 4096 mod 64) + r mod 4096"
    using mod_mult2_eq [of r 4096 64] by simp
  moreover have "r mod 4096 = 64 * (r div 64 mod 64) + r mod 64"
    using mod_mult2_eq [of r 64 64] by simp
  ultimately show ?thesis using div_mult_mod_eq [of r 262144] by linarith
qed

lemma decode_encode_4:
  assumes r: "65536 \<le> r" "r < 1114112"
  shows "decode_rune (utf8_encode r @ ys) = (r, 4)"
proof -
  let ?x = "240 + r div 262144" and ?b1 = "128 + r div 4096 mod 64"
  let ?b2 = "128 + r div 64 mod 64" and ?b3 = "128 + r mod 64"
  have q: "r div 262144 \<le> 4" using r by (simp add: div_less_iff_less_mult less_Suc_eq_le [symmetric])
  then have x: "240 \<le> ?x" "?x < 245" by simp_all
  have sz: "utf8_size ?x = 4" using x by (simp add: utf8_size_def)
  have v: "valid_rune r" using r by (simp add: valid_rune_def)
  have lo: "utf8_lo ?x \<le> ?b1"
  proof (cases "r < 262144")
    case True
    then have "16 \<le> r div 4096 mod 64" using r by (simp add: lo4)
    with True show ?thesis by (simp add: utf8_lo_def)
  next
    case False
    then have "1 \<le> r div 262144" using div_le_mono [of 262144 r 262144] by simp
    then show ?thesis by (simp add: utf8_lo_def)
  qed
  have hi: "?b1 \<le> utf8_hi ?x"
  proof (cases "r div 262144 = 4")
    case True
    then have "1048576 \<le> r" using div_eq_bounds [OF True] by simp
    then have "r div 4096 mod 64 < 16" using r by (simp add: hi4)
    with True show ?thesis by (simp add: utf8_hi_def)
  next
    case False
    with q show ?thesis by (simp add: utf8_hi_def)
  qed
  have xm: "?x mod 8 = r div 262144" using q by (simp add: add_mod_small)
  have b1m: "?b1 mod 64 = r div 4096 mod 64" by (simp add: add_mod_small)
  have b2m: "?b2 mod 64 = r div 64 mod 64" by (simp add: add_mod_small)
  have b3m: "?b3 mod 64 = r mod 64" by (simp add: add_mod_small)
  have enc: "utf8_encode r = [char_of ?x, char_of ?b1, char_of ?b2, char_of ?b3]"
    using r v by (simp add: utf8_encode_def)
  have bx: "byte (char_of ?x) = ?x" using x by (simp add: byte_char_of)
  have bb1: "byte (char_of ?b1) = ?b1" by (simp add: byte_char_of)
  have bb2: "byte (char_of ?b2) = ?b2" by (simp add: byte_char_of)
  have bb3: "byte (char_of ?b3) = ?b3" by (simp add: byte_char_of)
  have c: "is_cont ?b2" "is_cont ?b3" by (simp_all add: is_cont_def)
  show ?thesis using x sz lo hi c
    by (simp add: enc decode_rune_def Let_def bx bb1 bb2 bb3 xm b1m b2m b3m div_mod_split_4 not_less)
qed

lemma decode_encode:
  "valid_rune r \<Longrightarrow> decode_rune (utf8_encode r @ ys) = (r, length (utf8_encode r))"
proof -
  assume v: "valid_rune r"
  then have r: "r < 1114112" by (simp add: valid_rune_def)
  consider "r < 128" | "128 \<le> r" "r < 2048" | "2048 \<le> r" "r < 65536" | "65536 \<le> r"
    by linarith
  then show ?thesis
  proof cases
    case 1
    then have "length (utf8_encode r) = 1" by (simp add: utf8_encode_def)
    with decode_encode_1 [OF 1] show ?thesis by simp
  next
    case 2
    then have "length (utf8_encode r) = 2" by (simp add: utf8_encode_def)
    with decode_encode_2 [OF 2] show ?thesis by simp
  next
    case 3
    with v have "length (utf8_encode r) = 3" by (simp add: utf8_encode_def)
    with decode_encode_3 [OF 3 v] show ?thesis by simp
  next
    case 4
    with r v have "length (utf8_encode r) = 4" by (simp add: utf8_encode_def)
    with decode_encode_4 [OF 4 r] show ?thesis by simp
  qed
qed

lemma utf8_encode_lead:
  "valid_rune r \<Longrightarrow> utf8_encode r \<noteq> [] \<and> \<not> is_cont (byte (hd (utf8_encode r)))"
proof -
  assume v: "valid_rune r"
  then have "r < 1114112" by (simp add: valid_rune_def)
  then have "r div 262144 < 5" by (simp add: div_less_iff_less_mult)
  moreover have "r < 65536 \<Longrightarrow> r div 4096 < 16" by (simp add: div_less_iff_less_mult)
  moreover have "r < 2048 \<Longrightarrow> r div 64 < 32" by (simp add: div_less_iff_less_mult)
  ultimately show ?thesis using v by (auto simp: utf8_encode_def byte_char_of is_cont_def)
qed

lemma runes_encode:
  "valid_rune r \<Longrightarrow> runes (utf8_encode r @ ys) = (r, utf8_encode r) # runes ys"
proof -
  assume v: "valid_rune r"
  then have ne: "utf8_encode r @ ys \<noteq> []" using utf8_encode_lead by blast
  show ?thesis using decode_encode [OF v, of ys] by (simp add: runes_nonempty [OF ne])
qed

lemma space_valid_rune: "unicode_is_space r \<Longrightarrow> valid_rune r"
  by (auto simp: unicode_is_space_def valid_rune_def split: if_splits)

lemma char_of_byte [simp]: "char_of (byte c) = c"
  by (simp add: byte_def)

lemma digits2: "c < 64 \<Longrightarrow> (a * 64 + c) div 64 = a \<and> (a * 64 + c) mod 64 = (c::nat)"
  by simp

lemma digits3:
  assumes b: "b < 64" and c: "c < 64"
  shows "(a * 4096 + b * 64 + c) div 4096 = a \<and> (a * 4096 + b * 64 + c) div 64 mod 64 = b \<and>
         (a * 4096 + b * 64 + c) mod 64 = (c::nat)"
proof -
  have m: "b * 64 + c < 4096" using b c by linarith
  have e1: "a * 4096 + b * 64 + c = (b * 64 + c) + a * 4096" by simp
  have e2: "a * 4096 + b * 64 + c = c + (a * 64 + b) * 64" by simp
  have "(a * 4096 + b * 64 + c) div 4096 = a" using m by (simp only: e1 div_mult_self2)
  moreover have "(a * 4096 + b * 64 + c) div 64 = a * 64 + b" using c by (simp only: e2 div_mult_self2) simp
  moreover have "(a * 4096 + b * 64 + c) mod 64 = c"
    using add_mod_small [of "a * 4096 + b * 64" 64 c] c by simp
  ultimately show ?thesis using b by simp
qed


lemma digits4:
  assumes b: "b < 64" and c: "c < 64" and d: "d < 64"
  shows "(a * 262144 + b * 4096 + c * 64 + d) div 262144 = a \<and>
         (a * 262144 + b * 4096 + c * 64 + d) div 4096 mod 64 = b \<and>
         (a * 262144 + b * 4096 + c * 64 + d) div 64 mod 64 = c \<and>
         (a * 262144 + b * 4096 + c * 64 + d) mod 64 = (d::nat)"
proof -
  have e: "a * 262144 + b * 4096 + c * 64 + d = (a * 64 + b) * 4096 + c * 64 + d" by simp
  have q: "(a * 262144 + b * 4096 + c * 64 + d) div 4096 = a * 64 + b"
    using digits3 [OF c d, of "a * 64 + b"] by (simp only: e)
  have "(a * 262144 + b * 4096 + c * 64 + d) div 262144 = (a * 64 + b) div 64"
    using q div_mult2_eq [of "a * 262144 + b * 4096 + c * 64 + d" 4096 64] by simp
  then show ?thesis using digits3 [OF c d, of "a * 64 + b"] b q by (simp only: e) simp
qed

lemma decode_rune_bytes_2:
  assumes s: "s = c0 # t" and high: "\<not> byte c0 < 128" and sz: "utf8_size (byte c0) = 2"
    and dec: "decode_rune s = (r, w)" and ok: "\<not> (r = rune_error \<and> w = 1)"
  shows "take w s = utf8_encode r \<and> valid_rune r"
proof -
  let ?x = "byte c0"
  have x: "194 \<le> ?x" "?x < 224" using high sz by (auto simp: utf8_size_def split: if_splits)
  have f: "2 \<le> length s \<and> 128 \<le> byte (s ! 1) \<and> byte (s ! 1) \<le> 191 \<and>
           r = (?x mod 32) * 64 + byte (s ! 1) mod 64 \<and> w = 2"
    using dec ok s high sz x by (auto simp: decode_rune_def Let_def utf8_lo_def utf8_hi_def Suc_le_eq split: if_splits)
  then obtain c1 u where s2: "s = c0 # c1 # u" using s by (cases t) auto
  let ?b1 = "byte c1"
  have b1: "128 \<le> ?b1" "?b1 \<le> 191" using f s2 by simp_all
  have xm: "?x mod 32 = ?x - 192" using x by (simp add: mod_range [of 6 32])
  have bm: "?b1 mod 64 = ?b1 - 128" using b1 by (simp add: mod_range [of 2 64])
  have r: "r = (?x - 192) * 64 + (?b1 - 128)" using f s2 xm bm by simp
  have "?b1 - 128 < 64" using b1 by simp
  then have rd: "r div 64 = ?x - 192" "r mod 64 = ?b1 - 128" using r digits2 by simp_all
  have rr: "128 \<le> r" "r < 2048" using r x b1 by simp_all
  have "utf8_encode r = [char_of (192 + r div 64), char_of (128 + r mod 64)]"
    using rr by (simp add: utf8_encode_def)
  also have "\<dots> = [c0, c1]" using rd x b1 by simp
  finally show ?thesis using f s2 rr by (simp add: valid_rune_def)
qed


lemma decode_rune_bytes_3:
  assumes s: "s = c0 # t" and high: "\<not> byte c0 < 128" and sz: "utf8_size (byte c0) = 3"
    and dec: "decode_rune s = (r, w)" and ok: "\<not> (r = rune_error \<and> w = 1)"
  shows "take w s = utf8_encode r \<and> valid_rune r"
proof -
  let ?x = "byte c0"
  have x: "224 \<le> ?x" "?x < 240" using high sz by (auto simp: utf8_size_def split: if_splits)
  have f: "3 \<le> length s \<and> utf8_lo ?x \<le> byte (s ! 1) \<and> byte (s ! 1) \<le> utf8_hi ?x \<and>
           is_cont (byte (s ! 2)) \<and>
           r = (?x mod 16) * 4096 + byte (s ! 1) mod 64 * 64 + byte (s ! 2) mod 64 \<and> w = 3"
    using dec ok s high sz x by (auto simp: decode_rune_def Let_def Suc_le_eq split: if_splits)
  then obtain c1 c2 u where s3: "s = c0 # c1 # c2 # u"
    using s by (cases t; cases "tl t") (auto simp: Suc_le_eq)
  let ?b1 = "byte c1" and ?b2 = "byte c2"
  have b1: "utf8_lo ?x \<le> ?b1" "?b1 \<le> utf8_hi ?x" using f s3 by simp_all
  then have b1': "128 \<le> ?b1" "?b1 \<le> 191" using utf8_lo_hi [of ?x] by linarith+
  have b2: "128 \<le> ?b2" "?b2 \<le> 191" using f s3 by (simp_all add: is_cont_def)
  have xm: "?x mod 16 = ?x - 224" using x by (simp add: mod_range [of 14 16])
  have bm: "?b1 mod 64 = ?b1 - 128" "?b2 mod 64 = ?b2 - 128"
    using b1' b2 by (simp_all add: mod_range [of 2 64])
  have r: "r = (?x - 224) * 4096 + (?b1 - 128) * 64 + (?b2 - 128)" using f s3 xm bm by simp
  have lt: "?b1 - 128 < 64" "?b2 - 128 < 64" using b1' b2 by simp_all
  have rd: "r div 4096 = ?x - 224" "r div 64 mod 64 = ?b1 - 128" "r mod 64 = ?b2 - 128"
    using r digits3 [OF lt] by simp_all
  have lo: "2048 \<le> r"
  proof (cases "?x = 224")
    case True
    then have "160 \<le> ?b1" using b1 by (simp add: utf8_lo_def)
    then show ?thesis using r by simp
  next
    case False
    then have "1 \<le> ?x - 224" using x by simp
    then show ?thesis using r by (simp add: mult_le_mono1 [of 1 "?x - 224" 4096] trans_le_add1)
  qed
  have hi: "r < 65536" using r x lt by simp
  have ns: "\<not> (55296 \<le> r \<and> r \<le> 57343)"
  proof (cases "?x = 237")
    case True
    then have "?b1 \<le> 159" using b1 by (simp add: utf8_hi_def)
    then show ?thesis using r True lt by simp
  next
    case False
    then have "r div 4096 \<noteq> 13" using rd x by simp
    moreover have "55296 \<le> r \<Longrightarrow> r \<le> 57343 \<Longrightarrow> r div 4096 = 13"
      using div_range [of 4096 13 r 14] by simp
    ultimately show ?thesis by blast
  qed
  have v: "valid_rune r" using hi ns by (simp add: valid_rune_def)
  have "utf8_encode r =
        [char_of (224 + r div 4096), char_of (128 + r div 64 mod 64), char_of (128 + r mod 64)]"
    using lo hi v by (simp add: utf8_encode_def)
  also have "\<dots> = [c0, c1, c2]" using rd x b1' b2 by simp
  finally show ?thesis using f s3 v by simp
qed


lemma decode_rune_bytes_4:
  assumes s: "s = c0 # t" and high: "\<not> byte c0 < 128" and sz: "utf8_size (byte c0) = 4"
    and dec: "decode_rune s = (r, w)" and ok: "\<not> (r = rune_error \<and> w = 1)"
  shows "take w s = utf8_encode r \<and> valid_rune r"
proof -
  let ?x = "byte c0"
  have x: "240 \<le> ?x" "?x < 245" using high sz by (auto simp: utf8_size_def split: if_splits)
  have f: "4 \<le> length s \<and> utf8_lo ?x \<le> byte (s ! 1) \<and> byte (s ! 1) \<le> utf8_hi ?x \<and>
           is_cont (byte (s ! 2)) \<and> is_cont (byte (s ! 3)) \<and>
           r = (?x mod 8) * 262144 + byte (s ! 1) mod 64 * 4096 + byte (s ! 2) mod 64 * 64 +
               byte (s ! 3) mod 64 \<and> w = 4"
    using dec ok s high sz x by (auto simp: decode_rune_def Let_def Suc_le_eq split: if_splits)
  then obtain c1 c2 c3 u where s4: "s = c0 # c1 # c2 # c3 # u"
    using s by (cases t; cases "tl t"; cases "tl (tl t)") (auto simp: Suc_le_eq)
  let ?b1 = "byte c1" and ?b2 = "byte c2" and ?b3 = "byte c3"
  have b1: "utf8_lo ?x \<le> ?b1" "?b1 \<le> utf8_hi ?x" using f s4 by simp_all
  then have b1': "128 \<le> ?b1" "?b1 \<le> 191" using utf8_lo_hi [of ?x] by linarith+
  have b23: "128 \<le> ?b2" "?b2 \<le> 191" "128 \<le> ?b3" "?b3 \<le> 191" using f s4 by (simp_all add: is_cont_def)
  have xm: "?x mod 8 = ?x - 240" using x by (simp add: mod_range [of 30 8])
  have bm: "?b1 mod 64 = ?b1 - 128" "?b2 mod 64 = ?b2 - 128" "?b3 mod 64 = ?b3 - 128"
    using b1' b23 by (simp_all add: mod_range [of 2 64])
  have r: "r = (?x - 240) * 262144 + (?b1 - 128) * 4096 + (?b2 - 128) * 64 + (?b3 - 128)"
    using f s4 xm bm by simp
  have lt: "?b1 - 128 < 64" "?b2 - 128 < 64" "?b3 - 128 < 64" using b1' b23 by simp_all
  have rd: "r div 262144 = ?x - 240" "r div 4096 mod 64 = ?b1 - 128" "r div 64 mod 64 = ?b2 - 128"
           "r mod 64 = ?b3 - 128"
    using r digits4 [OF lt] by simp_all
  have lo: "65536 \<le> r"
  proof (cases "?x = 240")
    case True
    then have "144 \<le> ?b1" using b1 by (simp add: utf8_lo_def)
    then show ?thesis using r by simp
  next
    case False
    then have "1 \<le> ?x - 240" using x by simp
    then show ?thesis using r by (simp add: mult_le_mono1 [of 1 "?x - 240" 262144] trans_le_add1)
  qed
  have hi: "r < 1114112"
  proof (cases "?x = 244")
    case True
    then have "?b1 \<le> 143" using b1 by (simp add: utf8_hi_def)
    then show ?thesis using r True lt by simp
  next
    case False
    then have "?x - 240 \<le> 3" using x by simp
    then show ?thesis using r lt by simp
  qed
  have v: "valid_rune r" using lo hi by (simp add: valid_rune_def)
  have "utf8_encode r =
        [char_of (240 + r div 262144), char_of (128 + r div 4096 mod 64),
         char_of (128 + r div 64 mod 64), char_of (128 + r mod 64)]"
    using lo v by (simp add: utf8_encode_def)
  also have "\<dots> = [c0, c1, c2, c3]" using rd x b1' b23 by simp
  finally show ?thesis using f s4 v by simp
qed


lemma decode_rune_bytes:
  assumes ne: "s \<noteq> []" and dec: "decode_rune s = (r, w)" and ok: "\<not> (r = rune_error \<and> w = 1)"
  shows "take w s = utf8_encode r \<and> valid_rune r"
proof -
  obtain c0 t where s: "s = c0 # t" using ne by (cases s) auto
  show ?thesis
  proof (cases "byte c0 < 128")
    case True
    then have "r = byte c0" "w = 1" using dec s by (simp_all add: decode_rune_ascii)
    with True s show ?thesis by (simp add: utf8_encode_def valid_rune_def)
  next
    case high: False
    have "utf8_size (byte c0) \<noteq> 0"
    proof
      assume "utf8_size (byte c0) = 0"
      then have "decode_rune s = (rune_error, 1)" using s high by (simp add: decode_rune_def Let_def)
      with dec ok show False by simp
    qed
    then have "utf8_size (byte c0) = 2 \<or> utf8_size (byte c0) = 3 \<or> utf8_size (byte c0) = 4"
      using high utf8_size_cases [of "byte c0"] utf8_size_high [of "byte c0"] by auto
    then show ?thesis
      using decode_rune_bytes_2 [OF s high _ dec ok] decode_rune_bytes_3 [OF s high _ dec ok]
        decode_rune_bytes_4 [OF s high _ dec ok] by blast
  qed
qed

end
