(* ===== verification/GoStrings.thy ===== *)
theory GoStrings
  imports GoUtf8
begin

text \<open>
  The functions of Go's \<open>strings\<close> package that the sources call, on byte
  strings, as the package documents them: \<open>TrimSpace\<close> removes the leading and
  trailing white space, \<open>Fields\<close> splits around each run of white space, both
  with white space as \<open>unicode.IsSpace\<close> defines it on the runes the string
  decodes to (\<open>GoUtf8\<close>); \<open>Join\<close> and \<open>ReplaceAll\<close> with a one-byte pattern.
  Both white-space functions are list functions on the decoded runes:
  \<open>fields_gen\<close> returns the maximal runs of elements outside a predicate and
  \<open>trim_gen\<close> drops the elements inside it at both ends; a field or the trimmed
  string is the bytes of its runes. The package's fast paths for ASCII text and
  its backward decoding at the end of \<open>TrimSpace\<close> compute the same result.
  \<open>is_space\<close> is the ASCII white space (\<open>asciiSpace\<close>); on text whose bytes are
  all below 0x80 the functions are the byte-level ones (\<open>Fields_ascii\<close>,
  \<open>trim_space_ascii\<close>).
  The lemmas are the facts the components need: trimming never changes the
  fields, a string has no fields exactly when it trims to nothing, \<open>Fields\<close>
  inverts \<open>Join\<close> with a space on words of ASCII letters, and the number of
  fields is at most half the length plus one.
\<close>

section \<open>Definitions\<close>

definition is_space :: "char \<Rightarrow> bool" where
  "is_space c \<longleftrightarrow> (let n = (of_char c :: nat) in (9 \<le> n \<and> n \<le> 13) \<or> n = 32)"

text \<open>
  The maximal runs of elements outside \<open>p\<close>, in order. One scan: an element
  outside \<open>p\<close> joins the run the rest starts with, if the next element is also
  outside \<open>p\<close>.
\<close>

fun fields_gen :: "('a \<Rightarrow> bool) \<Rightarrow> 'a list \<Rightarrow> 'a list list" where
  "fields_gen p [] = []"
| "fields_gen p (c # s) =
     (if p c then fields_gen p s
      else (case fields_gen p s of
              [] \<Rightarrow> [[c]]
            | w # ws \<Rightarrow> (if s \<noteq> [] \<and> \<not> p (hd s) then (c # w) # ws else [c] # w # ws)))"

definition trim_gen :: "('a \<Rightarrow> bool) \<Rightarrow> 'a list \<Rightarrow> 'a list" where
  "trim_gen p xs = rev (dropWhile p (rev (dropWhile p xs)))"

text \<open>\<open>strings.Fields\<close>.\<close>

definition Fields :: "string \<Rightarrow> string list" where
  "Fields s = map (\<lambda>rs. concat (map snd rs)) (fields_gen rune_space (runes s))"

text \<open>\<open>strings.TrimSpace\<close>.\<close>

definition trim_space :: "string \<Rightarrow> string" where
  "trim_space s = concat (map snd (trim_gen rune_space (runes s)))"

text \<open>\<open>strings.Join\<close>.\<close>

fun join :: "string list \<Rightarrow> string \<Rightarrow> string" where
  "join [] sep = []"
| "join [w] sep = w"
| "join (w # ws) sep = w @ sep @ join ws sep"

text \<open>\<open>strings.ReplaceAll(s, old, new)\<close> where \<open>old\<close> and \<open>new\<close> are one byte each.\<close>

definition replace_all_char :: "string \<Rightarrow> char \<Rightarrow> char \<Rightarrow> string" where
  "replace_all_char s old new = map (\<lambda>c. if c = old then new else c) s"

text \<open>A word that \<open>Fields\<close> returns whole: non-empty ASCII without white space.\<close>

definition space_free_word :: "string \<Rightarrow> bool" where
  "space_free_word w \<longleftrightarrow> w \<noteq> [] \<and> list_all (\<lambda>c. byte c < 128 \<and> \<not> is_space c) w"

definition ascii :: "string \<Rightarrow> bool" where
  "ascii s \<longleftrightarrow> list_all (\<lambda>c. byte c < 128) s"

declare is_space_def [model_defs] trim_space_def [model_defs] Fields_def [model_defs]
  trim_gen_def [model_defs] replace_all_char_def [model_defs] ascii_def [model_defs]

section \<open>Runs outside a predicate\<close>

lemma fields_gen_nil_iff: "fields_gen p s = [] \<longleftrightarrow> (\<forall>c \<in> set s. p c)"
  by (induction s) (auto split: list.splits if_splits)

lemma fields_gen_hd: "s \<noteq> [] \<Longrightarrow> \<not> p (hd s) \<Longrightarrow> fields_gen p s \<noteq> []"
  by (metis fields_gen_nil_iff list.set_sel(1))

lemma fields_gen_dropWhile: "fields_gen p (dropWhile p s) = fields_gen p s"
  by (induction s) auto

lemma fields_gen_append_in:
  "\<forall>c \<in> set sp. p c \<Longrightarrow> fields_gen p (s @ sp) = fields_gen p s"
proof (induction s)
  case Nil
  then show ?case by (simp add: fields_gen_nil_iff)
next
  case (Cons c s)
  then have IH: "fields_gen p (s @ sp) = fields_gen p s" by simp
  show ?case
  proof (cases "s = []")
    case True
    from Cons.prems have fsp: "fields_gen p sp = []" by (simp add: fields_gen_nil_iff)
    from Cons.prems have "sp \<noteq> [] \<Longrightarrow> p (hd sp)" by (cases sp) auto
    with True fsp show ?thesis by auto
  next
    case False
    then have "hd (s @ sp) = hd s" by simp
    with IH False show ?thesis by (simp split: list.split)
  qed
qed

lemma fields_gen_append_sep:
  "p c \<Longrightarrow> fields_gen p (xs @ c # ys) = fields_gen p xs @ fields_gen p ys"
proof (induction xs)
  case Nil
  then show ?case by simp
next
  case (Cons x xs)
  show ?case
  proof (cases "p x")
    case True
    with Cons show ?thesis by simp
  next
    case x: False
    show ?thesis
    proof (cases "xs = []")
      case True
      with Cons.prems x show ?thesis by (simp split: list.split)
    next
      case xs: False
      show ?thesis
      proof (cases "p (hd xs)")
        case True
        with xs have "fields_gen p xs = fields_gen p (tl xs)" by (cases xs) auto
        with True xs x Cons show ?thesis by (auto split: list.split)
      next
        case False
        with xs obtain w ws where fw: "fields_gen p xs = w # ws"
          using fields_gen_hd by (cases "fields_gen p xs") auto
        with False xs x Cons show ?thesis by simp
      qed
    qed
  qed
qed

lemma fields_gen_single:
  "w \<noteq> [] \<Longrightarrow> \<forall>c \<in> set w. \<not> p c \<Longrightarrow> fields_gen p w = [w]"
proof (induction w)
  case Nil
  then show ?case by simp
next
  case (Cons c w)
  then show ?case by (cases w) auto
qed

lemma fields_gen_map: "fields_gen p (map f s) = map (map f) (fields_gen (p \<circ> f) s)"
proof (induction s)
  case (Cons c s)
  then show ?case by (cases s) (auto split: list.split)
qed simp

text \<open>At most one run in every two elements, plus one.\<close>

lemma fields_gen_length:
  "2 * length (fields_gen p s) \<le> length s + 1 \<and>
   (s \<noteq> [] \<and> p (hd s) \<longrightarrow> 2 * length (fields_gen p s) \<le> length s)"
proof (induction s)
  case Nil
  then show ?case by simp
next
  case (Cons c t)
  show ?case
  proof (cases "p c")
    case True
    with Cons show ?thesis by simp
  next
    case False
    show ?thesis
    proof (cases "t \<noteq> [] \<and> \<not> p (hd t)")
      case True
      then obtain w ws where "fields_gen p t = w # ws"
        using fields_gen_hd by (cases "fields_gen p t") auto
      with True False Cons.IH show ?thesis by simp
    next
      case nb: False
      with False Cons.IH show ?thesis
        by (cases t) (auto split: list.split)
    qed
  qed
qed

lemma trim_gen_nil_iff: "trim_gen p s = [] \<longleftrightarrow> (\<forall>c \<in> set s. p c)"
proof -
  have "(\<forall>x \<in> set (dropWhile p s). p x) \<longleftrightarrow> (\<forall>c \<in> set s. p c)"
    by (induction s) auto
  then show ?thesis by (simp add: trim_gen_def)
qed

lemma fields_gen_trim: "fields_gen p (trim_gen p s) = fields_gen p s"
proof -
  let ?t = "dropWhile p s"
  have split: "rev (dropWhile p (rev ?t)) @ rev (takeWhile p (rev ?t)) = ?t"
    by (rule rev_dropWhile_rev_split)
  have "fields_gen p (rev (dropWhile p (rev ?t))) =
        fields_gen p (rev (dropWhile p (rev ?t)) @ rev (takeWhile p (rev ?t)))"
    by (rule fields_gen_append_in [symmetric]) (rule all_rev_takeWhile)
  also have "\<dots> = fields_gen p s"
    by (simp only: split fields_gen_dropWhile)
  finally show ?thesis by (simp add: trim_gen_def)
qed

lemma set_trim_gen: "set (trim_gen p s) \<subseteq> set s"
proof
  fix x
  assume "x \<in> set (trim_gen p s)"
  then have "x \<in> set (dropWhile p (rev (dropWhile p s)))"
    by (simp add: trim_gen_def)
  then have "x \<in> set (dropWhile p s)" by (auto dest: set_dropWhileD)
  then show "x \<in> set s" by (rule set_dropWhileD)
qed

lemma dropWhile_idem: "dropWhile P (dropWhile P xs) = dropWhile P xs"
  by (induction xs) auto

lemma trim_gen_idem: "trim_gen p (trim_gen p s) = trim_gen p s"
proof -
  let ?d = "dropWhile p s"
  let ?u = "rev (dropWhile p (rev ?d))"
  obtain rest where split: "?u @ rest = ?d"
    using rev_dropWhile_rev_split by blast
  have "dropWhile p ?u = ?u"
  proof (cases ?u)
    case Nil
    then show ?thesis by (simp only:) simp
  next
    case (Cons x xs)
    with split have d: "?d = x # (xs @ rest)" by simp
    have "?d \<noteq> [] \<and> hd ?d = x" by (simp only: d) simp
    then have "\<not> p x" by (metis hd_dropWhile)
    with Cons show ?thesis by simp
  qed
  then have "trim_gen p ?u = rev (dropWhile p (rev ?u))"
    by (simp add: trim_gen_def)
  also have "\<dots> = ?u" by (simp add: dropWhile_idem)
  finally show ?thesis by (simp add: trim_gen_def)
qed


lemma fields_gen_cong: "(\<And>c. c \<in> set s \<Longrightarrow> p c = q c) \<Longrightarrow> fields_gen p s = fields_gen q s"
proof (induction s)
  case (Cons c s)
  then show ?case by (cases s) (auto split: list.split)
qed simp

lemma trim_gen_map: "trim_gen p (map f s) = map f (trim_gen (p \<circ> f) s)"
  by (simp add: trim_gen_def dropWhile_map rev_map)

lemma trim_gen_cong: "(\<And>c. c \<in> set s \<Longrightarrow> p c = q c) \<Longrightarrow> trim_gen p s = trim_gen q s"
proof -
  assume pq: "\<And>c. c \<in> set s \<Longrightarrow> p c = q c"
  then have d: "dropWhile p s = dropWhile q s" by (rule dropWhile_cong [OF refl]) simp
  have "\<And>c. c \<in> set (rev (dropWhile q s)) \<Longrightarrow> p c = q c"
    using pq by (auto dest: set_dropWhileD)
  then have "dropWhile p (rev (dropWhile q s)) = dropWhile q (rev (dropWhile q s))"
    by (rule dropWhile_cong [OF refl]) simp
  with d show ?thesis by (simp add: trim_gen_def)
qed

section \<open>Fields and TrimSpace on ASCII text\<close>

lemma runes_ascii: "ascii s \<Longrightarrow> runes s = map (\<lambda>c. (byte c, [c])) s"
  by (induction s) (simp_all add: ascii_def runes_ascii_Cons)

lemma rune_space_ascii: "byte c < 128 \<Longrightarrow> rune_space (byte c, [c]) \<longleftrightarrow> is_space c"
  by (auto simp: rune_space_def unicode_is_space_def is_space_def byte_def Let_def)

lemma concat_singletons: "concat (map (\<lambda>c. [c]) w) = w"
  by (induction w) simp_all

lemma Fields_ascii: "ascii s \<Longrightarrow> Fields s = fields_gen is_space s"
proof -
  assume a: "ascii s"
  have "fields_gen (rune_space \<circ> (\<lambda>c. (byte c, [c]))) s = fields_gen is_space s"
    by (rule fields_gen_cong) (use a in \<open>auto simp: ascii_def list_all_iff rune_space_ascii\<close>)
  then show ?thesis
    using a by (simp add: Fields_def runes_ascii fields_gen_map comp_def concat_singletons)
qed

lemma trim_space_ascii: "ascii s \<Longrightarrow> trim_space s = trim_gen is_space s"
proof -
  assume a: "ascii s"
  have "trim_gen (rune_space \<circ> (\<lambda>c. (byte c, [c]))) s = trim_gen is_space s"
    by (rule trim_gen_cong) (use a in \<open>auto simp: ascii_def list_all_iff rune_space_ascii\<close>)
  then show ?thesis
    using a by (simp add: trim_space_def runes_ascii trim_gen_map comp_def concat_singletons)
qed

section \<open>Fields and TrimSpace\<close>

lemma runes_trim_space: "runes (trim_space s) = trim_gen rune_space (runes s)"
proof -
  let ?R = "runes s"
  let ?D = "dropWhile rune_space ?R"
  let ?B = "rev (dropWhile rune_space (rev ?D))"
  let ?C = "rev (takeWhile rune_space (rev ?D))"
  have D: "?D = drop (length (takeWhile rune_space ?R)) ?R"
    by (metis append_eq_conv_conj takeWhile_dropWhile_id)
  have rD: "runes (concat (map snd ?D)) = ?D"
    by (simp only: D runes_drop_concat)
  have BC: "?B @ ?C = ?D" by (rule rev_dropWhile_rev_split)
  have C: "?C = drop (length ?B) ?D" using BC by (metis append_eq_conv_conj)
  have rC: "runes (concat (map snd ?C)) = ?C"
    using runes_drop_concat [of "length ?B" "concat (map snd ?D)"] by (simp only: rD C)
  have "set ?C \<subseteq> set ?D" by (auto dest: set_takeWhileD)
  moreover have "set ?D \<subseteq> set ?R" by (auto dest: set_dropWhileD)
  ultimately have Cset: "set ?C \<subseteq> set ?R" by blast
  have Csp: "\<forall>rb \<in> set ?C. rune_space rb" by (rule all_rev_takeWhile)
  have lead: "concat (map snd ?C) = [] \<or> \<not> is_cont (byte (hd (concat (map snd ?C))))"
  proof (cases ?C)
    case (Cons rb rest)
    then have "rb \<in> set ?R" using Cset by auto
    moreover have "rune_space rb" using Csp Cons by simp
    ultimately have "\<not> is_cont (byte (hd (snd rb)))" by (rule runes_space_lead)
    moreover have "snd rb \<noteq> []" using \<open>rb \<in> set ?R\<close> by (rule runes_bytes_nonempty)
    ultimately show ?thesis using Cons by simp
  qed simp
  have eqD: "concat (map snd ?D) = concat (map snd ?B) @ concat (map snd ?C)"
    by (metis BC concat_append map_append)
  have "?D = runes (concat (map snd ?B) @ concat (map snd ?C))"
    by (simp only: eqD [symmetric] rD)
  also have "\<dots> = runes (concat (map snd ?B)) @ ?C"
    by (simp only: runes_append [OF lead] rC)
  finally have "?B @ ?C = runes (concat (map snd ?B)) @ ?C" by (simp only: BC)
  then have "runes (concat (map snd ?B)) = ?B" by simp
  then show ?thesis by (simp add: trim_space_def trim_gen_def)
qed

lemma trim_space_Nil [simp]: "trim_space [] = []"
  by (simp add: trim_space_def trim_gen_def)

lemma fields_trim_space: "Fields (trim_space s) = Fields s"
  by (simp add: Fields_def runes_trim_space fields_gen_trim)

lemma concat_bytes_nil_iff:
  "set rs \<subseteq> set (runes s) \<Longrightarrow> concat (map snd rs) = [] \<longleftrightarrow> rs = []"
  using runes_bytes_nonempty by (cases rs) fastforce+

lemma fields_nil_iff_trim: "Fields s = [] \<longleftrightarrow> trim_space s = []"
proof -
  have "trim_space s = [] \<longleftrightarrow> trim_gen rune_space (runes s) = []"
    unfolding trim_space_def by (rule concat_bytes_nil_iff) (rule set_trim_gen)
  then show ?thesis by (simp add: Fields_def fields_gen_nil_iff trim_gen_nil_iff)
qed

lemma set_concat_runes: "set (concat (map snd rs)) \<subseteq> set s" if "set rs \<subseteq> set (runes s)"
proof -
  have "set (concat (map snd rs)) \<subseteq> set (concat (map snd (runes s)))" using that by auto
  then show ?thesis by (simp add: concat_runes)
qed

lemma set_trim_space: "set (trim_space s) \<subseteq> set s"
  unfolding trim_space_def by (rule set_concat_runes) (rule set_trim_gen)

lemma trim_space_idem: "trim_space (trim_space s) = trim_space s"
  by (simp add: trim_space_def [of "trim_space s"] runes_trim_space trim_gen_idem)
    (simp add: trim_space_def)

lemma blank_bytes: "trim_space s = [] \<Longrightarrow> c \<in> set s \<Longrightarrow> is_space c \<or> 128 \<le> byte c"
proof -
  assume t: "trim_space s = []" and c: "c \<in> set s"
  then have all: "\<forall>rb \<in> set (runes s). rune_space rb"
    by (simp flip: fields_nil_iff_trim add: Fields_def fields_gen_nil_iff)
  from c have "c \<in> set (concat (map snd (runes s)))" by (simp only: concat_runes)
  then obtain rb where rb: "rb \<in> set (runes s)" "c \<in> set (snd rb)" by auto
  with all have "128 \<le> byte c \<or> unicode_is_space (byte c)"
    using runes_space_bytes [of rb s c] by blast
  then show ?thesis by (auto simp: unicode_is_space_def is_space_def byte_def)
qed

lemma length_runes: "length (runes s) \<le> length s"
proof (induction s rule: runes.induct)
  case (1 s)
  show ?case
  proof (cases "s = []")
    case False
    with 1 decode_rune_width [OF False] show ?thesis by (simp add: runes_nonempty [OF False]) linarith
  qed simp
qed

text \<open>\<open>Fields\<close> finds at most one word in every two bytes, plus one.\<close>

lemma fields_length_bound: "2 * length (Fields s) \<le> length s + 1"
  using fields_gen_length [of rune_space "runes s"] length_runes [of s] by (simp add: Fields_def)

lemma fields_append_space_sep:
  "is_space c \<Longrightarrow> Fields (xs @ c # ys) = Fields xs @ Fields ys"
proof -
  assume c: "is_space c"
  then have a: "byte c < 128" by (auto simp: is_space_def byte_def Let_def)
  then have "\<not> is_cont (byte c)" by (simp add: is_cont_def)
  then have "runes (xs @ c # ys) = runes xs @ (byte c, [c]) # runes ys"
    using a by (simp add: runes_append runes_ascii_Cons)
  moreover have "rune_space (byte c, [c])" using a c by (simp add: rune_space_ascii)
  ultimately show ?thesis by (simp add: Fields_def fields_gen_append_sep)
qed

lemma fields_single_word: "space_free_word w \<Longrightarrow> Fields w = [w]"
proof -
  assume w: "space_free_word w"
  then have "ascii w" by (simp add: space_free_word_def ascii_def list_all_iff)
  with w show ?thesis
    by (simp add: Fields_ascii space_free_word_def list_all_iff fields_gen_single)
qed

lemma fields_append_space_rune:
  "unicode_is_space r \<Longrightarrow> Fields (xs @ utf8_encode r @ ys) = Fields xs @ Fields ys"
proof -
  assume sp: "unicode_is_space r"
  then have v: "valid_rune r" by (rule space_valid_rune)
  have lead: "utf8_encode r @ ys = [] \<or> \<not> is_cont (byte (hd (utf8_encode r @ ys)))"
    using utf8_encode_lead [OF v] by simp
  have "runes (xs @ utf8_encode r @ ys) = runes xs @ runes (utf8_encode r @ ys)"
    by (rule runes_append [OF lead])
  then have "runes (xs @ utf8_encode r @ ys) = runes xs @ (r, utf8_encode r) # runes ys"
    by (simp add: runes_encode [OF v])
  moreover have "rune_space (r, utf8_encode r)" using sp by (simp add: rune_space_def)
  ultimately show ?thesis by (simp add: Fields_def fields_gen_append_sep)
qed

lemma fields_space_runes_joined:
  "space_free_word w \<Longrightarrow> list_all (\<lambda>(r, v). unicode_is_space r \<and> space_free_word v) rest \<Longrightarrow>
   Fields (w @ concat (map (\<lambda>(r, v). utf8_encode r @ v) rest)) = w # map snd rest"
proof (induction rest arbitrary: w)
  case Nil
  then show ?case by (simp add: fields_single_word)
next
  case (Cons rv rest)
  obtain r v where rv: "rv = (r, v)" by (cases rv)
  with Cons.prems have sp: "unicode_is_space r" and v: "space_free_word v" by simp_all
  have "Fields (w @ utf8_encode r @ (v @ concat (map (\<lambda>(r, v). utf8_encode r @ v) rest))) =
        Fields w @ Fields (v @ concat (map (\<lambda>(r, v). utf8_encode r @ v) rest))"
    by (rule fields_append_space_rune [OF sp])
  moreover have "Fields (v @ concat (map (\<lambda>(r, v). utf8_encode r @ v) rest)) = v # map snd rest"
    using Cons.IH [OF v] Cons.prems rv by simp
  ultimately show ?case using Cons.prems rv by (simp add: fields_single_word)
qed

section \<open>Join and Fields\<close>

lemma fields_join_space:
  "list_all space_free_word ws \<Longrightarrow> Fields (join ws '' '') = ws"
proof (induction ws)
  case Nil
  then show ?case by (simp add: Fields_def)
next
  case (Cons w ws)
  from Cons.prems have w: "Fields w = [w]" by (simp add: fields_single_word)
  from Cons have IH: "Fields (join ws '' '') = ws" by simp
  have sp: "is_space (CHR '' '')" by (simp add: is_space_def)
  show ?case
  proof (cases ws)
    case Nil
    with w show ?thesis by simp
  next
    case (Cons v vs)
    then have "join (w # ws) '' '' = w @ CHR '' '' # join ws '' ''" by simp
    with w IH fields_append_space_sep [OF sp, of w "join ws '' ''"] show ?thesis
      by simp
  qed
qed

end
