(* ===== verification/Float64.thy ===== *)
theory Float64
  imports Prelude
begin

text \<open>
  The IEEE 754 binary64 arithmetic behind \<open>int(float64(wordCount) * 1.3)\<close> in
  \<open>estimateTokens\<close> (\<^verbatim>\<open>src/internal/api/api_client.go\<close>, line 121).
  The literal 1.3 is the double \<open>f64_1_3_mantissa * 2^-52\<close>; an integer
  \<open>n < 2^53\<close> converts to a double exactly, so the exact product is the integer
  \<open>n * f64_1_3_mantissa\<close> scaled by \<open>2^-52\<close>. Scaling by a power of two commutes
  with rounding in the normal range, so the product the hardware computes is
  \<open>round_nat53 (n * f64_1_3_mantissa) * 2^-52\<close>, where \<open>round_nat53\<close> rounds a
  natural number to 53 significant bits, to nearest with ties to even, and
  \<open>drop_bits\<close> counts the low bits that rounding removes. Go's \<open>int(x)\<close> of a
  positive double truncates, which is \<open>div 2^52\<close>.
  The lemmas bound the rounding error by half a unit in the last place and show
  that below \<open>2^40\<close> the truncated product is exactly \<open>(13 * n) div 10\<close>.
  The record \<open>f64\<close> gives doubles by their fields; \<open>f64_round\<close> rounds any
  \<open>\<plusminus>N * 2^E\<close> to a double and \<open>f64_mul\<close> multiplies. The lemmas show that both
  yield well-formed doubles and that a finite rounded value lies within half a
  unit in its last place of the exact real value (\<open>f64_round_correct\<close>).
\<close>

section \<open>Definitions\<close>

text \<open>The number of low bits of \<open>N\<close> beyond the 53 a double keeps.\<close>

fun drop_bits :: "nat \<Rightarrow> nat" where
  "drop_bits N = (if N < 2 ^ 53 then 0 else Suc (drop_bits (N div 2)))"

declare drop_bits.simps [simp del]

text \<open>Rounding to the 53-bit significand of a double, to nearest, ties to even.\<close>

text \<open>
  \<open>N / 2^s\<close> rounded to the nearest integer, ties to even: the significand
  that remains after rounding away the \<open>s\<close> low bits of \<open>N\<close>.
\<close>

definition round_shift :: "nat \<Rightarrow> nat \<Rightarrow> nat" where
  "round_shift N s =
     (let q = N div 2 ^ s; r = N mod 2 ^ s
      in if 2 * r > 2 ^ s \<or> (2 * r = 2 ^ s \<and> odd q) then q + 1 else q)"

definition round_nat53 :: "nat \<Rightarrow> nat" where
  "round_nat53 N = round_shift N (drop_bits N) * 2 ^ drop_bits N"

text \<open>The significand of the double nearest to 1.3, which is \<open>f64_1_3_mantissa / 2^52\<close>.\<close>

definition f64_1_3_mantissa :: nat where
  "f64_1_3_mantissa = 5854679515581645"

text \<open>\<open>int(float64(n) * 1.3)\<close> for \<open>n < 2^53\<close>.\<close>

definition f64_trunc_times_1_3 :: "nat \<Rightarrow> int" where
  "f64_trunc_times_1_3 n = int (round_nat53 (n * f64_1_3_mantissa) div 2 ^ 52)"

subsection \<open>Binary64 values\<close>

text \<open>
  A \<open>float64\<close> as its three bit fields, as IEEE 754 lays it out: the sign bit,
  the 11-bit biased exponent and the 52-bit fraction. Exponent 2047 holds the
  infinities (fraction 0) and the NaNs; exponent 0 the zeros and subnormals.
\<close>

record f64 =
  f64_sign :: bool
  f64_exp :: nat
  f64_frac :: nat

definition f64_wf :: "f64 \<Rightarrow> bool" where
  "f64_wf x \<longleftrightarrow> f64_exp x < 2048 \<and> f64_frac x < 2 ^ 52"

definition f64_is_nan :: "f64 \<Rightarrow> bool" where
  "f64_is_nan x \<longleftrightarrow> f64_exp x = 2047 \<and> f64_frac x \<noteq> 0"

definition f64_is_inf :: "f64 \<Rightarrow> bool" where
  "f64_is_inf x \<longleftrightarrow> f64_exp x = 2047 \<and> f64_frac x = 0"

definition f64_is_finite :: "f64 \<Rightarrow> bool" where
  "f64_is_finite x \<longleftrightarrow> f64_exp x < 2047"

text \<open>A finite double is \<open>\<plusminus>f64_sig x * 2^(f64_scale x)\<close>.\<close>

definition f64_sig :: "f64 \<Rightarrow> nat" where
  "f64_sig x = (if f64_exp x = 0 then f64_frac x else 2 ^ 52 + f64_frac x)"

definition f64_scale :: "f64 \<Rightarrow> int" where
  "f64_scale x = (if f64_exp x = 0 then -1074 else int (f64_exp x) - 1075)"

definition f64_valof :: "f64 \<Rightarrow> real" where
  "f64_valof x = (if f64_sign x then -1 else 1) * real (f64_sig x) * 2 powi f64_scale x"

definition f64_inf :: "bool \<Rightarrow> f64" where
  "f64_inf neg = \<lparr>f64_sign = neg, f64_exp = 2047, f64_frac = 0\<rparr>"

text \<open>The quiet NaN that the hardware produces for an invalid operation.\<close>

definition f64_qnan :: f64 where
  "f64_qnan = \<lparr>f64_sign = False, f64_exp = 2047, f64_frac = 2 ^ 51\<rparr>"

text \<open>The number of binary digits of \<open>n\<close>.\<close>

fun nbits :: "nat \<Rightarrow> nat" where
  "nbits n = (if n = 0 then 0 else Suc (nbits (n div 2)))"

declare nbits.simps [simp del]

text \<open>
  The double nearest to \<open>\<plusminus>N * 2^E\<close>, ties to even, with gradual underflow
  and overflow to infinity: the result's unit in the last place is
  \<open>2^k\<close>, where \<open>k\<close> puts the significand in \<open>[2^52, 2^53)\<close> or is the
  subnormal exponent \<open>-1074\<close>; a carry out of the significand moves to the next
  binade.
\<close>

definition f64_round :: "bool \<Rightarrow> nat \<Rightarrow> int \<Rightarrow> f64" where
  "f64_round neg N E =
     (let k0 = max (E + int (nbits N) - 53) (-1074);
          q0 = (if E \<le> k0 then round_shift N (nat (k0 - E)) else N * 2 ^ nat (E - k0));
          (q, k) = (if q0 = 2 ^ 53 then (2 ^ 52, k0 + 1) else (q0, k0))
      in if q < 2 ^ 52 then \<lparr>f64_sign = neg, f64_exp = 0, f64_frac = q\<rparr>
         else if 2047 \<le> k + 1075 then f64_inf neg
         else \<lparr>f64_sign = neg, f64_exp = nat (k + 1075), f64_frac = q - 2 ^ 52\<rparr>)"

text \<open>IEEE 754 multiplication, rounding to nearest, ties to even.\<close>

definition f64_mul :: "f64 \<Rightarrow> f64 \<Rightarrow> f64" where
  "f64_mul a b =
     (let neg = (f64_sign a \<noteq> f64_sign b)
      in if f64_is_nan a \<or> f64_is_nan b then f64_qnan
         else if f64_is_inf a \<or> f64_is_inf b then
           (if f64_sig a = 0 \<or> f64_sig b = 0 then f64_qnan else f64_inf neg)
         else f64_round neg (f64_sig a * f64_sig b) (f64_scale a + f64_scale b))"

text \<open>The constant \<open>100\<close> (\<open>1.5625 * 2^6\<close>).\<close>

definition f64_hundred :: f64 where
  "f64_hundred = \<lparr>f64_sign = False, f64_exp = 1029, f64_frac = 2533274790395904\<rparr>"

declare nbits.simps [model_defs] round_shift_def [model_defs] f64_round_def [model_defs]
  f64_mul_def [model_defs] f64_is_nan_def [model_defs] f64_is_inf_def [model_defs]
  f64_is_finite_def [model_defs] f64_sig_def [model_defs] f64_scale_def [model_defs]
  f64_hundred_def [model_defs] f64_inf_def [model_defs] f64_qnan_def [model_defs]
  f64_wf_def [model_defs]

section \<open>Lemmas\<close>

lemma drop_bits_le: "N < 2 ^ (53 + b) \<Longrightarrow> drop_bits N \<le> b"
proof (induction N arbitrary: b rule: drop_bits.induct)
  case (1 N)
  show ?case
  proof (cases "N < 2 ^ 53")
    case True
    then show ?thesis by (simp add: drop_bits.simps)
  next
    case False
    with "1.prems" obtain c where b: "b = Suc c"
      by (cases b) (auto simp: not_less)
    with "1.prems" have "N < 2 ^ (53 + c) * 2" by (simp add: power_add)
    then have "N div 2 < 2 ^ (53 + c)" by (simp add: div_less_iff_less_mult)
    with False "1.IH" [of c] b show ?thesis by (simp add: drop_bits.simps [of N])
  qed
qed

lemma round_shift_bounds:
  "N div 2 ^ s \<le> round_shift N s \<and>
   2 * (round_shift N s * 2 ^ s) \<le> 2 * N + 2 ^ s \<and>
   2 * N \<le> 2 * (round_shift N s * 2 ^ s) + 2 ^ s"
proof -
  let ?q = "N div 2 ^ s"
  let ?r = "N mod 2 ^ s"
  have N: "N = ?q * 2 ^ s + ?r" by (rule div_mult_mod_eq [symmetric])
  have r: "?r < 2 ^ s" by simp
  have e: "(?q + 1) * 2 ^ s = ?q * 2 ^ s + 2 ^ s" by (simp add: distrib_right)
  show ?thesis
  proof (cases "2 * ?r > 2 ^ s \<or> (2 * ?r = 2 ^ s \<and> odd ?q)")
    case True
    then have R: "round_shift N s = ?q + 1" by (simp add: round_shift_def Let_def)
    from True have "2 ^ s \<le> 2 * ?r" by auto
    with N e r show ?thesis unfolding R by (intro conjI) linarith+
  next
    case False
    then have R: "round_shift N s = ?q" by (simp add: round_shift_def Let_def)
    from False have "2 * ?r \<le> 2 ^ s" by auto
    with N show ?thesis unfolding R by (intro conjI) linarith+
  qed
qed

lemma round_shift_0 [simp]: "round_shift N 0 = N"
  by (simp add: round_shift_def)

lemma round_nat53_bounds:
  "(N div 2 ^ drop_bits N) * 2 ^ drop_bits N \<le> round_nat53 N \<and>
   2 * round_nat53 N \<le> 2 * N + 2 ^ drop_bits N"
  using round_shift_bounds [of N "drop_bits N"] by (simp add: round_nat53_def)

lemma f64_mantissa_eq: "10 * f64_1_3_mantissa = 13 * 2 ^ 52 + 2"
  by (simp add: f64_1_3_mantissa_def)

lemma f64_trunc_times_1_3_exact:
  assumes n: "n < 2 ^ 40"
  shows "f64_trunc_times_1_3 n = (13 * int n) div 10"
proof -
  let ?N = "n * f64_1_3_mantissa"
  let ?s = "drop_bits ?N"
  let ?R = "round_nat53 ?N"
  let ?k = "(13 * n) div 10"
  have tenN: "10 * ?N = 13 * n * 2 ^ 52 + 2 * n"
    using f64_mantissa_eq by (simp add: algebra_simps)
  have "?N < 2 ^ (53 + 40)"
  proof -
    have "f64_1_3_mantissa \<le> 2 ^ 53" by (simp add: f64_1_3_mantissa_def)
    then have "?N \<le> n * 2 ^ 53" by (rule mult_le_mono2)
    also have "\<dots> < 2 ^ 40 * 2 ^ 53" using n by simp
    finally show ?thesis by (simp add: power_add)
  qed
  then have s: "?s \<le> 40" by (rule drop_bits_le)
  then have ps: "2 ^ ?s \<le> (2::nat) ^ 40" by (rule power_increasing) simp
  from round_nat53_bounds [of ?N]
  have lo: "(?N div 2 ^ ?s) * 2 ^ ?s \<le> ?R" and hi: "2 * ?R \<le> 2 * ?N + 2 ^ ?s" by auto
  have k10: "10 * ?k \<le> 13 * n" and k10': "13 * n < 10 * ?k + 10" by simp_all
  have kN: "?k * 2 ^ 52 \<le> ?N"
  proof -
    have "10 * (?k * 2 ^ 52) \<le> 13 * n * 2 ^ 52" using k10 by simp
    also have "\<dots> \<le> 10 * ?N" by (simp only: tenN)
    finally show ?thesis by (simp add: ac_simps)
  qed
  have dvd: "2 ^ ?s dvd (2::nat) ^ 52" using s by (intro le_imp_power_dvd) simp
  have "?k * 2 ^ 52 \<le> (?N div 2 ^ ?s) * 2 ^ ?s"
  proof -
    obtain d where d: "(2::nat) ^ 52 = 2 ^ ?s * d" using dvd by blast
    have kd: "?k * d * 2 ^ ?s = ?k * 2 ^ 52" by (metis d mult.commute mult.assoc)
    have "?k * d * 2 ^ ?s \<le> ?N" using kN by (simp only: kd)
    then have "?k * d \<le> ?N div 2 ^ ?s" by (simp add: less_eq_div_iff_mult_less_eq)
    then have "?k * d * 2 ^ ?s \<le> (?N div 2 ^ ?s) * 2 ^ ?s" by simp
    then show ?thesis by (simp only: kd)
  qed
  with lo have low: "?k * 2 ^ 52 \<le> ?R" by simp
  have "20 * ?R \<le> 20 * ?N + 10 * 2 ^ ?s" using hi by simp
  also have "\<dots> \<le> 26 * n * 2 ^ 52 + 4 * n + 10 * 2 ^ 40" using tenN ps by linarith
  also have "\<dots> < 20 * (?k + 1) * 2 ^ 52" using k10' n by simp
  finally have high: "?R < (?k + 1) * 2 ^ 52" by simp
  from low high have "?R div 2 ^ 52 = ?k"
    by (simp add: div_nat_eqI)
  then show ?thesis by (simp add: f64_trunc_times_1_3_def zdiv_int)
qed


lemma nbits_bound: "n < 2 ^ nbits n"
proof (induction n rule: nbits.induct)
  case (1 n)
  show ?case
  proof (cases "n = 0")
    case True
    then show ?thesis by (simp add: nbits.simps)
  next
    case False
    with 1 have "n div 2 < 2 ^ nbits (n div 2)" by simp
    with False show ?thesis by (simp add: nbits.simps [of n])
  qed
qed

lemma round_shift_le_Suc: "round_shift N s \<le> N div 2 ^ s + 1"
  by (simp add: round_shift_def Let_def)

lemma round_shift_le_pow: "N < 2 ^ (m + s) \<Longrightarrow> round_shift N s \<le> 2 ^ m"
proof -
  assume "N < 2 ^ (m + s)"
  then have "N div 2 ^ s < 2 ^ m" by (simp add: div_less_iff_less_mult power_add)
  then show ?thesis using round_shift_le_Suc [of N s] by linarith
qed

text \<open>The significand \<open>f64_round\<close> computes before the carry is never above \<open>2^53\<close>.\<close>

lemma f64_round_sig_le:
  assumes k0: "k0 = max (E + int (nbits N) - 53) (-1074)"
  shows "(if E \<le> k0 then round_shift N (nat (k0 - E)) else N * 2 ^ nat (E - k0)) \<le> 2 ^ 53"
proof (cases "E \<le> k0")
  case True
  have "int (nbits N) \<le> 53 + (k0 - E)" using k0 by simp
  then have "nbits N \<le> 53 + nat (k0 - E)" using True by linarith
  then have "N < 2 ^ (53 + nat (k0 - E))"
    using nbits_bound [of N] power_increasing [of "nbits N" "53 + nat (k0 - E)" "2::nat"]
    by linarith
  with True show ?thesis using round_shift_le_pow [of N 53 "nat (k0 - E)"] by simp
next
  case False
  have le: "nat (E - k0) + nbits N \<le> 53" using False k0 by linarith
  have "N * 2 ^ nat (E - k0) < 2 ^ nbits N * 2 ^ nat (E - k0)"
    using nbits_bound [of N] by simp
  also have "\<dots> = 2 ^ (nat (E - k0) + nbits N)" by (simp add: power_add)
  also have "\<dots> \<le> 2 ^ 53" using le by (rule power_increasing) simp
  finally show ?thesis using False by simp
qed

lemma f64_round_wf: "f64_wf (f64_round neg N E)"
proof -
  define k0 where "k0 = max (E + int (nbits N) - 53) (-1074)"
  define q0 where "q0 = (if E \<le> k0 then round_shift N (nat (k0 - E)) else N * 2 ^ nat (E - k0))"
  have q0: "q0 \<le> 2 ^ 53" unfolding q0_def by (rule f64_round_sig_le [OF k0_def])
  show ?thesis
    unfolding f64_round_def Let_def k0_def [symmetric] q0_def [symmetric]
    using q0 by (auto simp: f64_wf_def f64_inf_def)
qed

lemma f64_qnan_wf: "f64_wf f64_qnan"
  by (simp add: f64_wf_def f64_qnan_def)

lemma f64_inf_wf: "f64_wf (f64_inf neg)"
  by (simp add: f64_wf_def f64_inf_def)

lemma nbits_lower: "0 < N \<Longrightarrow> 2 ^ (nbits N - 1) \<le> N"
proof (induction N rule: nbits.induct)
  case (1 N)
  show ?case
  proof (cases "N div 2 = 0")
    case True
    with "1.prems" have "N = 1" by linarith
    then show ?thesis by (simp add: nbits.simps)
  next
    case False
    with 1 have ih: "2 ^ (nbits (N div 2) - 1) \<le> N div 2" by simp
    have pos: "0 < nbits (N div 2)" using False by (simp add: nbits.simps [of "N div 2"])
    have "2 ^ (nbits N - 1) = 2 * 2 ^ (nbits (N div 2) - 1)"
      using "1.prems" pos by (simp add: nbits.simps [of N] power_Suc [symmetric])
    also have "\<dots> \<le> N" using ih by linarith
    finally show ?thesis .
  qed
qed

lemma round_error_scaled:
  fixes N :: nat and E k0 :: int
  assumes "E \<le> k0"
  shows "\<bar>real (round_shift N (nat (k0 - E))) * 2 powi k0 - real N * 2 powi E\<bar> \<le> 2 powi k0 / 2"
proof -
  let ?s = "nat (k0 - E)"
  let ?R = "round_shift N ?s"
  from round_shift_bounds [of N ?s]
  have a: "2 * (?R * 2 ^ ?s) \<le> 2 * N + 2 ^ ?s" and b: "2 * N \<le> 2 * (?R * 2 ^ ?s) + 2 ^ ?s"
    by auto
  have "real (2 * (?R * 2 ^ ?s)) \<le> real (2 * N + 2 ^ ?s)" using a by (simp only: of_nat_le_iff)
  then have a': "2 * (real ?R * 2 ^ ?s) \<le> 2 * real N + 2 ^ ?s" by simp
  have "real (2 * N) \<le> real (2 * (?R * 2 ^ ?s) + 2 ^ ?s)" using b by (simp only: of_nat_le_iff)
  then have b': "2 * real N \<le> 2 * (real ?R * 2 ^ ?s) + 2 ^ ?s" by simp
  have k: "(2::real) powi k0 = 2 ^ ?s * 2 powi E"
    using assms by (simp add: power_int_add [symmetric] power_int_of_nat [symmetric])
  have p: "(0::real) < 2 powi E" by simp
  have e: "\<bar>real ?R * 2 ^ ?s - real N\<bar> \<le> 2 ^ ?s / 2"
    unfolding abs_le_iff using a' b' by linarith
  have "\<bar>real ?R * 2 ^ ?s - real N\<bar> * 2 powi E \<le> 2 ^ ?s / 2 * 2 powi E"
    by (rule mult_right_mono [OF e]) simp
  moreover have "real ?R * 2 powi k0 - real N * 2 powi E = (real ?R * 2 ^ ?s - real N) * 2 powi E"
    by (simp add: k algebra_simps)
  moreover have "\<bar>(real ?R * 2 ^ ?s - real N) * 2 powi E\<bar> = \<bar>real ?R * 2 ^ ?s - real N\<bar> * 2 powi E"
    using p by (simp add: abs_mult)
  ultimately show ?thesis by (simp add: k)
qed

lemma round_sig_normal:
  assumes N: "0 < N" and k0: "k0 = max (E + int (nbits N) - 53) (-1074)" and big: "-1074 < k0"
  shows "2 ^ 52 \<le> (if E \<le> k0 then round_shift N (nat (k0 - E)) else N * 2 ^ nat (E - k0))"
proof -
  have k: "k0 = E + int (nbits N) - 53" using k0 big by linarith
  have low: "2 ^ (nbits N - 1) \<le> N" using N by (rule nbits_lower)
  have nb: "1 \<le> nbits N" using N by (simp add: nbits.simps)
  show ?thesis
  proof (cases "E \<le> k0")
    case True
    let ?s = "nat (k0 - E)"
    have s: "nbits N - 1 = 52 + ?s" using True k nb by linarith
    from low have "2 ^ (52 + ?s) \<le> N" by (simp only: s)
    then have "2 ^ 52 * 2 ^ ?s \<le> N" by (simp add: power_add)
    then have "2 ^ 52 \<le> N div 2 ^ ?s" by (simp add: less_eq_div_iff_mult_less_eq)
    also have "\<dots> \<le> round_shift N ?s" using round_shift_bounds [of N ?s] by simp
    finally show ?thesis using True by simp
  next
    case False
    let ?t = "nat (E - k0)"
    have t: "nbits N - 1 + ?t = 52" using False k nb by linarith
    have "(2::nat) ^ 52 = 2 ^ (nbits N - 1) * 2 ^ ?t" by (simp add: t [symmetric] power_add)
    also have "\<dots> \<le> N * 2 ^ ?t" using low by simp
    finally show ?thesis using False by simp
  qed
qed

lemma round_sig_exact:
  "\<not> E \<le> k0 \<Longrightarrow> real (N * 2 ^ nat (E - k0)) * 2 powi k0 = real N * 2 powi E"
proof -
  assume "\<not> E \<le> k0"
  then have "(2::real) powi E = 2 ^ nat (E - k0) * 2 powi k0"
    by (simp add: power_int_add [symmetric] power_int_of_nat [symmetric])
  then show ?thesis by simp
qed

lemma f64_round_correct:
  assumes fin: "f64_is_finite (f64_round neg N E)"
  shows "\<bar>f64_valof (f64_round neg N E) - (if neg then -1 else 1) * real N * 2 powi E\<bar>
         \<le> 2 powi f64_scale (f64_round neg N E) / 2"
proof -
  define k0 where "k0 = max (E + int (nbits N) - 53) (-1074)"
  define q0 where "q0 = (if E \<le> k0 then round_shift N (nat (k0 - E)) else N * 2 ^ nat (E - k0))"
  define sg :: real where "sg = (if neg then -1 else 1)"
  have sg: "\<bar>sg\<bar> = 1" by (simp add: sg_def)
  have err: "\<bar>real q0 * 2 powi k0 - real N * 2 powi E\<bar> \<le> 2 powi k0 / 2"
  proof (cases "E \<le> k0")
    case True
    then show ?thesis using round_error_scaled [OF True, of N] by (simp add: q0_def)
  next
    case False
    then have "real q0 * 2 powi k0 = real N * 2 powi E"
      using round_sig_exact [OF False, of N] by (simp only: q0_def if_False)
    then show ?thesis by simp
  qed
  have errs: "\<bar>sg * real q0 * 2 powi k0 - sg * real N * 2 powi E\<bar> \<le> 2 powi k0 / 2"
  proof -
    have "\<bar>sg * real q0 * 2 powi k0 - sg * real N * 2 powi E\<bar> =
          \<bar>sg\<bar> * \<bar>real q0 * 2 powi k0 - real N * 2 powi E\<bar>"
      by (simp add: abs_mult [symmetric] algebra_simps)
    with sg err show ?thesis by simp
  qed
  have k0low: "-1074 \<le> k0" by (simp add: k0_def)
  have r: "f64_round neg N E =
           (case (if q0 = 2 ^ 53 then (2 ^ 52, k0 + 1) else (q0, k0)) of (q, k) \<Rightarrow>
              if q < 2 ^ 52 then \<lparr>f64_sign = neg, f64_exp = 0, f64_frac = q\<rparr>
              else if 2047 \<le> k + 1075 then f64_inf neg
              else \<lparr>f64_sign = neg, f64_exp = nat (k + 1075), f64_frac = q - 2 ^ 52\<rparr>)"
    unfolding f64_round_def Let_def k0_def [symmetric] q0_def [symmetric] by simp
  show ?thesis
  proof (cases "q0 = 2 ^ 53")
    case True
    with fin r have ok: "\<not> 2047 \<le> k0 + 1 + 1075"
      by (auto simp: f64_is_finite_def f64_inf_def)
    with True r have v: "f64_round neg N E =
        \<lparr>f64_sign = neg, f64_exp = nat (k0 + 1 + 1075), f64_frac = 0\<rparr>" by simp
    have sc: "f64_scale (f64_round neg N E) = k0 + 1" using v k0low by (simp add: f64_scale_def)
    have val: "f64_valof (f64_round neg N E) = sg * real q0 * 2 powi k0"
      using v k0low True by (simp add: f64_valof_def f64_sig_def f64_scale_def sg_def power_int_add)
    have "(2::real) powi k0 / 2 \<le> 2 powi (k0 + 1) / 2" by (simp add: power_int_add)
    with errs val sc show ?thesis by (simp add: sg_def)
  next
    case nc: False
    show ?thesis
    proof (cases "q0 < 2 ^ 52")
      case True
      with nc r have v: "f64_round neg N E = \<lparr>f64_sign = neg, f64_exp = 0, f64_frac = q0\<rparr>" by simp
      have sc: "f64_scale (f64_round neg N E) = -1074" using v by (simp add: f64_scale_def)
      show ?thesis
      proof (cases "N = 0")
        case True
        then have "q0 = 0" by (simp add: q0_def round_shift_def)
        with v True show ?thesis by (simp add: f64_valof_def f64_sig_def)
      next
        case False
        have "k0 = -1074"
        proof (rule ccontr)
          assume "k0 \<noteq> -1074"
          with k0low have "-1074 < k0" by simp
          from round_sig_normal [OF _ k0_def this] False have "2 ^ 52 \<le> q0"
            by (simp add: q0_def)
          with True show False by simp
        qed
        have sc': "f64_scale (f64_round neg N E) = k0" using sc \<open>k0 = -1074\<close> by simp
        have val: "f64_valof (f64_round neg N E) = sg * real q0 * 2 powi k0"
          using v sc' by (simp add: f64_valof_def f64_sig_def sg_def)
        show ?thesis using errs by (simp only: val sc' sg_def)
      qed
    next
      case False
      with nc fin r have ok: "\<not> 2047 \<le> k0 + 1075"
        by (auto simp: f64_is_finite_def f64_inf_def)
      with nc False r have v: "f64_round neg N E =
          \<lparr>f64_sign = neg, f64_exp = nat (k0 + 1075), f64_frac = q0 - 2 ^ 52\<rparr>" by simp
      have sc: "f64_scale (f64_round neg N E) = k0" using v k0low by (simp add: f64_scale_def)
      have val: "f64_valof (f64_round neg N E) = sg * real q0 * 2 powi k0"
        using v k0low False by (simp add: f64_valof_def f64_sig_def f64_scale_def sg_def)
      with errs sc show ?thesis by (simp add: sg_def)
    qed
  qed
qed


lemma f64_valof_mul_exact:
  "f64_valof a * f64_valof b =
   (if f64_sign a \<noteq> f64_sign b then -1 else 1) * real (f64_sig a * f64_sig b) *
   2 powi (f64_scale a + f64_scale b)"
  by (simp add: f64_valof_def power_int_add)

lemma powi2_less_iff [simp]: "(2::real) powi a < 2 powi b \<longleftrightarrow> a < b"
proof
  assume "(2::real) powi a < 2 powi b"
  then show "a < b" using power_int_increasing [of b a "2::real"] by (cases "a < b") auto
qed (rule power_int_strict_increasing, simp_all)

lemma powi2_le_iff [simp]: "(2::real) powi a \<le> 2 powi b \<longleftrightarrow> a \<le> b"
  using powi2_less_iff [of b a] by (simp add: not_less [symmetric])

lemma round_k0_small:
  assumes N: "0 < N" and k0: "k0 = max (E + int (nbits N) - 53) (-1074)"
    and lt: "real N * 2 powi E < 2 powi m"
  shows "k0 \<le> max (m - 53) (-1074)"
proof (cases "E + int (nbits N) - 53 \<le> -1074")
  case True
  then show ?thesis using k0 by simp
next
  case False
  then have k: "k0 = E + int (nbits N) - 53" using k0 by simp
  have nb: "1 \<le> nbits N" using N by (simp add: nbits.simps)
  have "real (2 ^ (nbits N - 1)) \<le> real N" using nbits_lower [OF N] by (simp only: of_nat_le_iff)
  then have "2 ^ (nbits N - 1) * 2 powi E \<le> real N * (2::real) powi E" by simp
  moreover have "(2::real) powi (k0 + 52) = 2 ^ (nbits N - 1) * 2 powi E"
  proof -
    have "k0 + 52 = int (nbits N - 1) + E" using k nb by simp
    then show ?thesis by (simp add: power_int_add power_int_of_nat)
  qed
  ultimately have "(2::real) powi (k0 + 52) < 2 powi m" using lt by linarith
  then have "k0 + 52 < m" by simp
  then show ?thesis by simp
qed


lemma f64_round_small:
  assumes lt: "real N * 2 powi E < 2 powi m" and m: "m \<le> 1023"
  shows "f64_is_finite (f64_round neg N E) \<and> f64_scale (f64_round neg N E) \<le> max (m - 52) (-1073)"
proof -
  define k0 where "k0 = max (E + int (nbits N) - 53) (-1074)"
  define q0 where "q0 = (if E \<le> k0 then round_shift N (nat (k0 - E)) else N * 2 ^ nat (E - k0))"
  have k0low: "-1074 \<le> k0" by (simp add: k0_def)
  have r: "f64_round neg N E =
           (case (if q0 = 2 ^ 53 then (2 ^ 52, k0 + 1) else (q0, k0)) of (q, k) \<Rightarrow>
              if q < 2 ^ 52 then \<lparr>f64_sign = neg, f64_exp = 0, f64_frac = q\<rparr>
              else if 2047 \<le> k + 1075 then f64_inf neg
              else \<lparr>f64_sign = neg, f64_exp = nat (k + 1075), f64_frac = q - 2 ^ 52\<rparr>)"
    unfolding f64_round_def Let_def k0_def [symmetric] q0_def [symmetric] by simp
  show ?thesis
  proof (cases "q0 < 2 ^ 52")
    case True
    then show ?thesis using r by (simp add: f64_is_finite_def f64_scale_def)
  next
    case big: False
    have "N \<noteq> 0"
    proof
      assume "N = 0"
      then have "q0 = 0" by (simp add: q0_def round_shift_def)
      with big show False by simp
    qed
    then have "k0 \<le> max (m - 53) (-1074)" using round_k0_small [OF _ k0_def lt] by simp
    then have k: "k0 + 1 \<le> max (m - 52) (-1073)" by simp
    with m have ok: "\<not> 2047 \<le> k0 + 1 + 1075" "\<not> 2047 \<le> k0 + 1075" by auto
    show ?thesis
    proof (cases "q0 = 2 ^ 53")
      case True
      then show ?thesis using r ok k k0low by (simp add: f64_is_finite_def f64_scale_def)
    next
      case False
      then show ?thesis using r ok k k0low big by (simp add: f64_is_finite_def f64_scale_def)
    qed
  qed
qed

lemma f64_round_sign: "f64_is_finite (f64_round neg N E) \<Longrightarrow> f64_sign (f64_round neg N E) = neg"
  unfolding f64_round_def Let_def case_prod_beta
  by (simp add: f64_is_finite_def f64_inf_def if_distrib [of f64_sign] if_distrib [of f64_exp])

lemma powi2_cancel: "(2::real) powi n * 2 powi (- n) = 1"
  by (simp add: power_int_add [symmetric])

text \<open>
  Multiplication is correctly rounded: when both operands and the product are
  finite, the double \<open>f64_mul\<close> returns lies within half a unit in the last
  place of the exact real product of the operands' values.
\<close>

lemma f64_mul_correct:
  assumes a: "f64_is_finite a" and b: "f64_is_finite b" and r: "f64_is_finite (f64_mul a b)"
  shows "\<bar>f64_valof (f64_mul a b) - f64_valof a * f64_valof b\<bar> \<le> 2 powi f64_scale (f64_mul a b) / 2"
proof -
  have sp: "\<not> f64_is_nan a" "\<not> f64_is_inf a" "\<not> f64_is_nan b" "\<not> f64_is_inf b"
    using a b by (simp_all add: f64_is_finite_def f64_is_nan_def f64_is_inf_def)
  let ?neg = "f64_sign a \<noteq> f64_sign b"
  have m: "f64_mul a b = f64_round ?neg (f64_sig a * f64_sig b) (f64_scale a + f64_scale b)"
    using sp by (simp add: f64_mul_def Let_def)
  show ?thesis
    using f64_round_correct [of ?neg "f64_sig a * f64_sig b" "f64_scale a + f64_scale b"] r
    by (simp only: m f64_valof_mul_exact)
qed

end
