(* ===== verification/TokenEstimator.thy ===== *)
theory TokenEstimator
  imports GoStrings Float64
begin

text \<open>
  The token estimator \<open>estimateTokens\<close> of \<^verbatim>\<open>src/internal/api/api_client.go\<close>
  (lines 104--128): the heuristic number of tokens in one streamed text chunk.
  The two \<open>float64\<close> computations are modelled by the integer arithmetic they
  compute: \<open>int(float64(n) * 1.3)\<close> is \<open>(13 * n) div 10\<close> and
  \<open>int(float64(n) / 3.0)\<close> is \<open>n div 3\<close>. The first is proved equal to the
  IEEE 754 computation of theory \<open>Float64\<close> for every word count below \<open>2^40\<close>
  (claim \<open>estimateTokens_float64\<close>); a chunk with more words than that has more
  than a terabyte of text, and sampling shows the first disagreement near
  \<open>2^49\<close>. The second sits in a branch that is never taken
  (\<open>estimateTokens_word_branch_only\<close>), so its rounding cannot change a result.
  The lemmas show that the estimate is 0 exactly on blank chunks and at least 1
  otherwise, that it never exceeds the chunk's length in bytes, that it grows
  with the word count, and that the character-count branch of the source can
  never be taken.
\<close>

section \<open>Definitions\<close>

text \<open>\<open>int(float64(wordCount) * 1.3)\<close>.\<close>

definition tokens_for_words :: "nat \<Rightarrow> go_int" where
  "tokens_for_words wordCount = (13 * int wordCount) div 10"

text \<open>\<open>int(float64(charCount) / 3.0)\<close>.\<close>

definition tokens_for_chars :: "nat \<Rightarrow> go_int" where
  "tokens_for_chars charCount = int charCount div 3"

definition estimateTokens :: "string \<Rightarrow> go_int" where
  "estimateTokens content =
     (if content = [] then 0
      else let content' = trim_space content in
        if length content' = 0 then 0
        else let words = Fields content'; wordCount = length words in
          if wordCount > 0 then max 1 (tokens_for_words wordCount)
          else let charCount = length content' in max 1 (tokens_for_chars charCount))"

declare tokens_for_words_def [model_defs] tokens_for_chars_def [model_defs]
  estimateTokens_def [model_defs]

section \<open>Helper lemmas\<close>

lemma tokens_for_words_mono: "m \<le> n \<Longrightarrow> tokens_for_words m \<le> tokens_for_words n"
  by (simp add: tokens_for_words_def zdiv_mono1)

lemma tokens_for_words_nonneg: "0 \<le> tokens_for_words n"
  by (simp add: tokens_for_words_def)

lemma tokens_for_words_le: "2 * w \<le> L + 1 \<Longrightarrow> tokens_for_words w \<le> int L"
proof -
  assume "2 * w \<le> L + 1"
  then have "13 * w < (L + 1) * 10" by (simp add: algebra_simps)
  then have "13 * w div 10 < L + 1" by (simp add: div_less_iff_less_mult)
  then have "13 * w div 10 \<le> L" by simp
  then show ?thesis by (simp add: tokens_for_words_def zdiv_int [symmetric])
qed

lemma estimateTokens_blank: "trim_space s = [] \<Longrightarrow> estimateTokens s = 0"
  by (simp add: estimateTokens_def)

lemma estimateTokens_nonblank:
  "trim_space s \<noteq> [] \<Longrightarrow> estimateTokens s = max 1 (tokens_for_words (length (Fields s)))"
proof -
  assume t: "trim_space s \<noteq> []"
  then have s: "s \<noteq> []" by auto
  from t have "Fields (trim_space s) \<noteq> []"
    by (simp add: fields_trim_space fields_nil_iff_trim)
  with t s show ?thesis
    by (simp add: estimateTokens_def fields_trim_space Let_def)
qed

lemma estimateTokens_nonneg: "0 \<le> estimateTokens s"
  by (cases "trim_space s = []") (simp_all add: estimateTokens_blank estimateTokens_nonblank)

section \<open>Properties\<close>

text \<open>
  C6. The estimator's contract: a chunk that is empty or white space only is
  estimated at 0 tokens, and every other chunk at 1 token or more.
\<close>

theorem estimateTokens_blank_iff:
  "(estimateTokens s = 0 \<longleftrightarrow> trim_space s = []) \<and>
   (trim_space s \<noteq> [] \<longrightarrow> 1 \<le> estimateTokens s)"
  by (cases "trim_space s = []") (simp_all add: estimateTokens_blank estimateTokens_nonblank)

theorem estimateTokens_blank_iff_witness:
  "trim_space '' Hi '' \<noteq> [] \<and> 1 \<le> estimateTokens '' Hi '' \<and>
   trim_space '' \<newline> '' = [] \<and> estimateTokens '' \<newline> '' = 0"
  using estimateTokens_blank_iff [of "'' Hi ''"] estimateTokens_blank_iff [of "'' \<newline> ''"]
  by (simp add: model_defs)

text \<open>
  C7. The character-count branch of \<open>estimateTokens\<close> (source lines 122--127) is
  dead code: once the trimmed chunk is non-empty, \<open>strings.Fields\<close> finds at
  least one word, so the estimate is always 0 for a blank chunk and otherwise
  \<open>max 1 (int(1.3 * wordCount))\<close> with the chunk's word count.
\<close>

theorem estimateTokens_word_branch_only:
  "estimateTokens s =
     (if Fields s = [] then 0 else max 1 (tokens_for_words (length (Fields s))))"
  by (cases "trim_space s = []")
     (simp_all add: estimateTokens_blank estimateTokens_nonblank fields_nil_iff_trim)

text \<open>
  C8. The estimate is monotone in the word count: a chunk with at least as many
  words is never estimated at fewer tokens.
\<close>

theorem estimateTokens_mono_words:
  "length (Fields a) \<le> length (Fields b) \<Longrightarrow> estimateTokens a \<le> estimateTokens b"
proof (cases "Fields a = []")
  case True
  then show ?thesis
    by (simp add: estimateTokens_blank fields_nil_iff_trim estimateTokens_nonneg)
next
  case False
  assume le: "length (Fields a) \<le> length (Fields b)"
  with False have "Fields b \<noteq> []" by auto
  with False le show ?thesis
    by (simp add: estimateTokens_nonblank fields_nil_iff_trim tokens_for_words_mono
        max.coboundedI2)
qed

theorem estimateTokens_mono_words_witness:
  "length (Fields ''a'') \<le> length (Fields ''a b'') \<and> estimateTokens ''a'' \<le> estimateTokens ''a b''"
  using estimateTokens_mono_words [of "''a''" "''a b''"] by (simp add: model_defs)

text \<open>
  C9. The estimate of a chunk never exceeds its length in bytes, so the running
  estimate of a stream is bounded by the size of the text received.
\<close>

theorem estimateTokens_le_length: "estimateTokens s \<le> int (length s)"
proof (cases "trim_space s = []")
  case True
  then show ?thesis by (simp add: estimateTokens_blank)
next
  case False
  let ?w = "length (Fields s)"
  from False have s: "s \<noteq> []" by auto
  have "2 * ?w \<le> length s + 1" using fields_length_bound by blast
  then have "tokens_for_words ?w \<le> int (length s)" by (rule tokens_for_words_le)
  moreover from s have "1 \<le> int (length s)" by (cases s) auto
  ultimately show ?thesis using False by (simp add: estimateTokens_nonblank)
qed

text \<open>
  C10. The integer model of the estimator is the \<open>float64\<close> computation of the
  source: for every chunk with fewer than \<open>2^40\<close> words, \<open>estimateTokens\<close> is 0
  on a blank chunk and otherwise \<open>max 1\<close> of the IEEE 754 round-to-nearest
  product \<open>float64(wordCount) * 1.3\<close> truncated by \<open>int\<close>.
\<close>

theorem estimateTokens_float64:
  "length (Fields s) < 2 ^ 40 \<Longrightarrow>
   estimateTokens s =
     (if trim_space s = [] then 0 else max 1 (f64_trunc_times_1_3 (length (Fields s))))"
  by (cases "trim_space s = []")
     (simp_all add: estimateTokens_blank estimateTokens_nonblank f64_trunc_times_1_3_exact
        tokens_for_words_def)

theorem estimateTokens_float64_witness:
  "length (Fields ''say hi to all'') < 2 ^ 40 \<and>
   estimateTokens ''say hi to all'' = max 1 (f64_trunc_times_1_3 4) \<and>
   f64_trunc_times_1_3 4 = 5"
  using estimateTokens_float64 [of "''say hi to all''"]
  by (simp add: model_defs f64_trunc_times_1_3_def round_nat53_def f64_1_3_mantissa_def
      drop_bits.simps)


text \<open>
  C30. The estimator splits words at every white-space rune Go's
  \<open>unicode.IsSpace\<close> knows, not only at ASCII white space: a chunk made of
  ASCII words joined by arbitrary Unicode white space (a no-break space, an
  ideographic space, a line separator, ...) is estimated from its number of
  words, exactly as if the words were joined by single spaces.
\<close>

theorem estimateTokens_unicode_separators:
  "space_free_word w \<Longrightarrow> list_all (\<lambda>(r, v). unicode_is_space r \<and> space_free_word v) rest \<Longrightarrow>
   estimateTokens (w @ concat (map (\<lambda>(r, v). utf8_encode r @ v) rest)) =
     max 1 (tokens_for_words (Suc (length rest)))"
proof -
  assume w: "space_free_word w" and rest: "list_all (\<lambda>(r, v). unicode_is_space r \<and> space_free_word v) rest"
  let ?s = "w @ concat (map (\<lambda>(r, v). utf8_encode r @ v) rest)"
  have f: "Fields ?s = w # map snd rest" by (rule fields_space_runes_joined [OF w rest])
  then have "trim_space ?s \<noteq> []" by (simp flip: fields_nil_iff_trim)
  then show ?thesis by (simp add: estimateTokens_nonblank f)
qed

theorem estimateTokens_unicode_separators_witness:
  "space_free_word ''Hello'' \<and>
   list_all (\<lambda>(r, v). unicode_is_space r \<and> space_free_word v) [(12288, ''world''), (160, ''again'')] \<and>
   estimateTokens (''Hello'' @ utf8_encode 12288 @ ''world'' @ utf8_encode 160 @ ''again'') = 3"
  using estimateTokens_unicode_separators [of "''Hello''" "[(12288, ''world''), (160, ''again'')]"]
  by (simp add: space_free_word_def byte_def is_space_def unicode_is_space_def tokens_for_words_def)

end
