(* ===== verification/StreamConsumer.thy ===== *)
theory StreamConsumer
  imports TokenEstimator
begin

text \<open>
  The streaming consumer \<open>AskOpenAi\<close> of \<^verbatim>\<open>src/internal/api/api_client.go\<close>
  (lines 15--97) with its usage reconciliation (lines 85--94).
  The OpenAI client is an input: \<open>server\<close> maps the request the consumer builds to
  the stream it answers with, the events \<open>stream.Next()\<close>/\<open>stream.Current()\<close>
  deliver in order and the error \<open>stream.Err()\<close> reports once \<open>Next()\<close> returns
  false. Each event is paired with the value \<open>time.Since(start).Seconds()\<close> has
  when the loop reaches it. The optional progress bar is the flag \<open>has_bar\<close>
  (\<open>bar != nil\<close>), and the consumer's effect on it is the list of the arguments of
  its \<open>bar.Add\<close> calls, in call order; the bar itself is in \<open>Progress\<close>.
  The loop is \<open>stream_loop\<close>, one call of \<open>process_event\<close> per event. The same
  run is also given as a step relation on the phases Start, Streaming, Finalized
  and Failed of the spec (section 4.3); from every phase the relation reaches a
  terminal phase in finitely many steps.
  The lemmas describe the state after any prefix of the stream by an abstract
  specification (\<open>spec_content\<close>, \<open>spec_estimate\<close>, \<open>spec_first_token\<close>,
  \<open>spec_usage\<close>), which gives the result of \<open>AskOpenAi\<close> on success and on error
  and the total it adds to the progress bar.
\<close>

section \<open>Data\<close>

text \<open>\<open>choice.Delta.Content\<close> of one \<open>ChatCompletionChunkChoice\<close>.\<close>

record choice =
  delta_content :: string

text \<open>One \<open>ChatCompletionChunk\<close>: its usage counts and its choices.\<close>

record chunk_event =
  usage_prompt_tokens :: go_int
  usage_completion_tokens :: go_int
  choices :: "choice list"

type_synonym timed_event = "seconds \<times> chunk_event"

record stream =
  events :: "timed_event list"
  stream_err :: "string option"

datatype message = UserMessage string

text \<open>\<open>openai.ChatCompletionNewParams\<close> as the consumer fills it.\<close>

record chat_request =
  req_model :: string
  req_messages :: "message list"
  req_max_completion_tokens :: go_int
  req_temperature :: real
  req_include_usage :: bool

text \<open>The local variables of \<open>AskOpenAi\<close> (lines 18--25) and the calls made on the bar.\<close>

record consumer_state =
  timeToFirstToken :: seconds
  firstTokenSeen :: bool
  accumulatedContent :: string
  estimatedTokens :: go_int
  promptTokens :: go_int
  completionTokens :: go_int
  bar_adds :: "go_int list"

text \<open>The four values \<open>AskOpenAi\<close> returns with a nil error (line 96), in order.\<close>

record run_metrics =
  rm_content :: string
  rm_timeToFirstToken :: seconds
  rm_completionTokens :: go_int
  rm_promptTokens :: go_int

section \<open>Operations\<close>

definition init_consumer :: consumer_state where
  "init_consumer =
     \<lparr>timeToFirstToken = 0, firstTokenSeen = False, accumulatedContent = [],
      estimatedTokens = 0, promptTokens = 0, completionTokens = 0, bar_adds = []\<rparr>"

text \<open>\<open>if bar != nil { bar.Add(n) }\<close>.\<close>

definition bar_add :: "bool \<Rightarrow> go_int \<Rightarrow> consumer_state \<Rightarrow> consumer_state" where
  "bar_add has_bar n st = (if has_bar then st\<lparr>bar_adds := bar_adds st @ [n]\<rparr> else st)"

text \<open>The request of lines 28--41.\<close>

definition build_request :: "string \<Rightarrow> string \<Rightarrow> go_int \<Rightarrow> chat_request" where
  "build_request model prompt maxTokens =
     \<lparr>req_model = model, req_messages = [UserMessage prompt],
      req_max_completion_tokens = maxTokens, req_temperature = 1, req_include_usage = True\<rparr>"

text \<open>Lines 48--51: usage counts overwrite both recorded counts.\<close>

definition record_usage :: "chunk_event \<Rightarrow> consumer_state \<Rightarrow> consumer_state" where
  "record_usage ev st =
     (if usage_prompt_tokens ev > 0 \<or> usage_completion_tokens ev > 0
      then st\<lparr>promptTokens := usage_prompt_tokens ev,
              completionTokens := usage_completion_tokens ev\<rparr>
      else st)"

text \<open>Lines 58--63: the first delta with visible text fixes the time to first token.\<close>

definition track_first_token :: "seconds \<Rightarrow> string \<Rightarrow> consumer_state \<Rightarrow> consumer_state" where
  "track_first_token t content st =
     (if \<not> firstTokenSeen st \<and> content \<noteq> []
      then (if trim_space content \<noteq> []
            then st\<lparr>timeToFirstToken := t, firstTokenSeen := True\<rparr>
            else st)
      else st)"

text \<open>Lines 66--76: append the delta, add its estimate, report it to the bar.\<close>

definition accumulate_chunk :: "bool \<Rightarrow> string \<Rightarrow> consumer_state \<Rightarrow> consumer_state" where
  "accumulate_chunk has_bar content st =
     (if content \<noteq> []
      then (let newTokens = estimateTokens content
            in bar_add has_bar newTokens
                 (st\<lparr>accumulatedContent := accumulatedContent st @ content,
                     estimatedTokens := estimatedTokens st + newTokens\<rparr>))
      else st)"

text \<open>The loop body, lines 45--77: only \<open>Choices[0]\<close> is read.\<close>

definition process_event :: "bool \<Rightarrow> consumer_state \<Rightarrow> timed_event \<Rightarrow> consumer_state" where
  "process_event has_bar st te =
     (let t = fst te; ev = snd te; st1 = record_usage ev st
      in case choices ev of
           [] \<Rightarrow> st1
         | ch # _ \<Rightarrow>
             accumulate_chunk has_bar (delta_content ch)
               (track_first_token t (delta_content ch) st1))"

text \<open>The loop \<open>for stream.Next() { ... }\<close>, lines 44--78.\<close>

fun stream_loop :: "bool \<Rightarrow> consumer_state \<Rightarrow> timed_event list \<Rightarrow> consumer_state" where
  "stream_loop has_bar st [] = st"
| "stream_loop has_bar st (te # tes) = stream_loop has_bar (process_event has_bar st te) tes"

text \<open>
  Lines 85--94: without a usage count the estimate becomes the completion count;
  with a positive one the bar is corrected by the difference.
\<close>

definition finalize_usage :: "bool \<Rightarrow> consumer_state \<Rightarrow> consumer_state" where
  "finalize_usage has_bar st =
     (if completionTokens st = 0 then st\<lparr>completionTokens := estimatedTokens st\<rparr>
      else if has_bar \<and> completionTokens st > 0
      then (let diff = completionTokens st - estimatedTokens st
            in if diff \<noteq> 0 then bar_add has_bar diff st else st)
      else st)"

definition metrics_of :: "consumer_state \<Rightarrow> run_metrics" where
  "metrics_of st =
     \<lparr>rm_content = accumulatedContent st, rm_timeToFirstToken = timeToFirstToken st,
      rm_completionTokens = completionTokens st, rm_promptTokens = promptTokens st\<rparr>"

text \<open>
  \<open>AskOpenAi\<close>: the result (error or metrics) and the calls made on the bar, which
  happen whether or not the stream fails.
\<close>

definition askOpenAi ::
  "(chat_request \<Rightarrow> stream) \<Rightarrow> string \<Rightarrow> string \<Rightarrow> go_int \<Rightarrow> bool \<Rightarrow>
   (api_error + run_metrics) \<times> go_int list" where
  "askOpenAi server model prompt maxTokens has_bar =
     (let s = server (build_request model prompt maxTokens);
          st = stream_loop has_bar init_consumer (events s)
      in case stream_err s of
           Some err \<Rightarrow> (Inl (StreamError err), bar_adds st)
         | None \<Rightarrow> (let st' = finalize_usage has_bar st in (Inr (metrics_of st'), bar_adds st')))"

declare init_consumer_def [model_defs] bar_add_def [model_defs] build_request_def [model_defs]
  record_usage_def [model_defs] track_first_token_def [model_defs]
  accumulate_chunk_def [model_defs] process_event_def [model_defs]
  finalize_usage_def [model_defs] metrics_of_def [model_defs] askOpenAi_def [model_defs]

section \<open>Abstract specification of a run\<close>

text \<open>
  What a run computes from the events it has read, stated without the loop:
  the text of the first choices, the estimates reported to the bar, the time of
  the first delta with visible text, and the last usage record with a positive
  count.
\<close>

definition first_delta :: "chunk_event \<Rightarrow> string" where
  "first_delta ev = (case choices ev of [] \<Rightarrow> [] | ch # _ \<Rightarrow> delta_content ch)"

definition has_usage :: "chunk_event \<Rightarrow> bool" where
  "has_usage ev \<longleftrightarrow> usage_prompt_tokens ev > 0 \<or> usage_completion_tokens ev > 0"

definition spec_content :: "timed_event list \<Rightarrow> string" where
  "spec_content tes = concat (map (first_delta \<circ> snd) tes)"

definition spec_adds :: "timed_event list \<Rightarrow> go_int list" where
  "spec_adds tes = map estimateTokens (filter (\<lambda>c. c \<noteq> []) (map (first_delta \<circ> snd) tes))"

definition spec_estimate :: "timed_event list \<Rightarrow> go_int" where
  "spec_estimate tes = sum_list (spec_adds tes)"

fun spec_first_token :: "timed_event list \<Rightarrow> seconds option" where
  "spec_first_token [] = None"
| "spec_first_token (te # tes) =
     (if trim_space (first_delta (snd te)) \<noteq> [] then Some (fst te) else spec_first_token tes)"

definition spec_usage :: "timed_event list \<Rightarrow> (go_int \<times> go_int) option" where
  "spec_usage tes =
     (case rev (filter has_usage (map snd tes)) of
        [] \<Rightarrow> None
      | ev # _ \<Rightarrow> Some (usage_prompt_tokens ev, usage_completion_tokens ev))"

definition spec_completion :: "timed_event list \<Rightarrow> go_int" where
  "spec_completion tes =
     (case spec_usage tes of
        None \<Rightarrow> spec_estimate tes
      | Some (p, c) \<Rightarrow> if c = 0 then spec_estimate tes else c)"

definition spec_metrics :: "timed_event list \<Rightarrow> run_metrics" where
  "spec_metrics tes =
     \<lparr>rm_content = spec_content tes,
      rm_timeToFirstToken = (case spec_first_token tes of None \<Rightarrow> 0 | Some t \<Rightarrow> t),
      rm_completionTokens = spec_completion tes,
      rm_promptTokens = (case spec_usage tes of None \<Rightarrow> 0 | Some (p, c) \<Rightarrow> p)\<rparr>"

declare first_delta_def [model_defs] has_usage_def [model_defs] spec_content_def [model_defs]
  spec_adds_def [model_defs] spec_estimate_def [model_defs] spec_usage_def [model_defs]
  spec_completion_def [model_defs] spec_metrics_def [model_defs]

section \<open>The protocol as a step relation\<close>

text \<open>
  The phases of the spec (section 4.3): before the request, reading the stream
  with the events still to come, and the two terminal phases. \<open>Failed\<close> keeps
  the calls already made on the bar, since they are not undone.
\<close>

datatype phase =
    Start
  | Streaming consumer_state "timed_event list"
  | Finalized consumer_state
  | Failed string "go_int list"

inductive consumer_step :: "bool \<Rightarrow> stream \<Rightarrow> phase \<Rightarrow> phase \<Rightarrow> bool"
  for has_bar :: bool and s :: stream where
  start: "consumer_step has_bar s Start (Streaming init_consumer (events s))"
| next_event:
    "consumer_step has_bar s (Streaming st (te # tes)) (Streaming (process_event has_bar st te) tes)"
| stream_failed:
    "stream_err s = Some err \<Longrightarrow> consumer_step has_bar s (Streaming st []) (Failed err (bar_adds st))"
| stream_done:
    "stream_err s = None \<Longrightarrow>
     consumer_step has_bar s (Streaming st []) (Finalized (finalize_usage has_bar st))"

inductive reachable :: "bool \<Rightarrow> stream \<Rightarrow> phase \<Rightarrow> bool"
  for has_bar :: bool and s :: stream where
  reach_start: "reachable has_bar s Start"
| reach_step: "reachable has_bar s c \<Longrightarrow> consumer_step has_bar s c c' \<Longrightarrow> reachable has_bar s c'"

definition phase_outcome :: "phase \<Rightarrow> ((api_error + run_metrics) \<times> go_int list) option" where
  "phase_outcome c =
     (case c of
        Finalized st \<Rightarrow> Some (Inr (metrics_of st), bar_adds st)
      | Failed err adds \<Rightarrow> Some (Inl (StreamError err), adds)
      | _ \<Rightarrow> None)"

declare phase_outcome_def [model_defs]

section \<open>Example streams\<close>

text \<open>
  Concrete inputs: the two scenarios of the spec (section 8), a stream whose last
  usage record has a zero completion count, a stream that fails after one chunk,
  and a stream whose usage record carries a negative completion count.
\<close>

definition text_event :: "seconds \<Rightarrow> string \<Rightarrow> timed_event" where
  "text_event t c =
     (t, \<lparr>usage_prompt_tokens = 0, usage_completion_tokens = 0,
          choices = [\<lparr>delta_content = c\<rparr>]\<rparr>)"

definition usage_event :: "seconds \<Rightarrow> go_int \<Rightarrow> go_int \<Rightarrow> timed_event" where
  "usage_event t p c = (t, \<lparr>usage_prompt_tokens = p, usage_completion_tokens = c, choices = []\<rparr>)"

definition ex_hello_world :: stream where
  "ex_hello_world =
     \<lparr>events = [text_event 0.25 ''Hello'', text_event 0.5 '' world'', usage_event 0.75 5 3],
      stream_err = None\<rparr>"

definition ex_no_usage :: stream where
  "ex_no_usage =
     \<lparr>events = [text_event 0.1 ''one two three'', text_event 0.2 '' four''], stream_err = None\<rparr>"

definition ex_usage_reset :: stream where
  "ex_usage_reset =
     \<lparr>events = [text_event 0.1 ''Hi'', usage_event 0.2 5 3, usage_event 0.3 5 0],
      stream_err = None\<rparr>"

definition ex_failed :: stream where
  "ex_failed =
     \<lparr>events = [text_event 0.1 '' '', text_event 0.2 ''Hello there''],
      stream_err = Some ''connection reset''\<rparr>"

definition ex_negative_usage :: stream where
  "ex_negative_usage =
     \<lparr>events = [text_event 0.1 ''Hi'', usage_event 0.2 5 (-2)], stream_err = None\<rparr>"

declare text_event_def [model_defs] usage_event_def [model_defs]
  ex_hello_world_def [model_defs] ex_no_usage_def [model_defs] ex_usage_reset_def [model_defs]
  ex_failed_def [model_defs] ex_negative_usage_def [model_defs]

section \<open>The loop against the specification\<close>

lemma process_event_content:
  "accumulatedContent (process_event hb st te) = accumulatedContent st @ first_delta (snd te)"
  by (simp add: process_event_def accumulate_chunk_def track_first_token_def record_usage_def
      bar_add_def first_delta_def Let_def split: list.split)

lemma process_event_estimate:
  "estimatedTokens (process_event hb st te) =
     estimatedTokens st + sum_list (spec_adds [te])"
  by (simp add: process_event_def accumulate_chunk_def track_first_token_def record_usage_def
      bar_add_def first_delta_def spec_adds_def Let_def split: list.split)

lemma process_event_adds:
  "bar_adds (process_event hb st te) = bar_adds st @ (if hb then spec_adds [te] else [])"
  by (simp add: process_event_def accumulate_chunk_def track_first_token_def record_usage_def
      bar_add_def first_delta_def spec_adds_def Let_def split: list.split)

lemma process_event_first_token:
  "(firstTokenSeen (process_event hb st te), timeToFirstToken (process_event hb st te)) =
     (if firstTokenSeen st then (True, timeToFirstToken st)
      else if trim_space (first_delta (snd te)) \<noteq> [] then (True, fst te)
      else (False, timeToFirstToken st))"
  by (simp add: process_event_def accumulate_chunk_def track_first_token_def record_usage_def
      bar_add_def first_delta_def Let_def split: list.split)

lemma process_event_usage:
  "(promptTokens (process_event hb st te), completionTokens (process_event hb st te)) =
     (if has_usage (snd te)
      then (usage_prompt_tokens (snd te), usage_completion_tokens (snd te))
      else (promptTokens st, completionTokens st))"
  by (simp add: process_event_def accumulate_chunk_def track_first_token_def record_usage_def
      bar_add_def has_usage_def Let_def split: list.split)

lemma spec_adds_Cons: "spec_adds (te # tes) = spec_adds [te] @ spec_adds tes"
  by (simp add: spec_adds_def)

lemma spec_usage_Cons:
  "spec_usage (te # tes) =
     (case spec_usage tes of
        None \<Rightarrow> (if has_usage (snd te)
                 then Some (usage_prompt_tokens (snd te), usage_completion_tokens (snd te))
                 else None)
      | Some u \<Rightarrow> Some u)"
  by (simp add: spec_usage_def split: list.split)

lemma stream_loop_content [run_simps]:
  "accumulatedContent (stream_loop hb st tes) = accumulatedContent st @ spec_content tes"
  by (induction tes arbitrary: st) (simp_all add: process_event_content spec_content_def)

lemma stream_loop_estimate [run_simps]:
  "estimatedTokens (stream_loop hb st tes) = estimatedTokens st + spec_estimate tes"
proof (induction tes arbitrary: st)
  case Nil
  then show ?case by (simp add: spec_estimate_def spec_adds_def)
next
  case (Cons te tes)
  then show ?case
    by (simp add: process_event_estimate spec_estimate_def spec_adds_Cons [of te tes])
qed

lemma stream_loop_adds [run_simps]:
  "bar_adds (stream_loop hb st tes) = bar_adds st @ (if hb then spec_adds tes else [])"
proof (induction tes arbitrary: st)
  case Nil
  then show ?case by (simp add: spec_adds_def)
next
  case (Cons te tes)
  then show ?case by (simp add: process_event_adds spec_adds_Cons [of te tes])
qed

lemma stream_loop_first_token [run_simps]:
  "(firstTokenSeen (stream_loop hb st tes), timeToFirstToken (stream_loop hb st tes)) =
     (if firstTokenSeen st then (True, timeToFirstToken st)
      else case spec_first_token tes of
             None \<Rightarrow> (False, timeToFirstToken st)
           | Some t \<Rightarrow> (True, t))"
proof (induction tes arbitrary: st)
  case Nil
  then show ?case by simp
next
  case (Cons te tes)
  have step: "(firstTokenSeen (process_event hb st te), timeToFirstToken (process_event hb st te)) =
     (if firstTokenSeen st then (True, timeToFirstToken st)
      else if trim_space (first_delta (snd te)) \<noteq> [] then (True, fst te)
      else (False, timeToFirstToken st))"
    by (rule process_event_first_token)
  show ?case
    using Cons.IH [of "process_event hb st te"] step by (auto split: if_splits option.split)
qed

lemma stream_loop_usage [run_simps]:
  "(promptTokens (stream_loop hb st tes), completionTokens (stream_loop hb st tes)) =
     (case spec_usage tes of
        None \<Rightarrow> (promptTokens st, completionTokens st)
      | Some pc \<Rightarrow> pc)"
proof (induction tes arbitrary: st)
  case Nil
  then show ?case by (simp add: spec_usage_def)
next
  case (Cons te tes)
  have step: "(promptTokens (process_event hb st te), completionTokens (process_event hb st te)) =
     (if has_usage (snd te)
      then (usage_prompt_tokens (snd te), usage_completion_tokens (snd te))
      else (promptTokens st, completionTokens st))"
    by (rule process_event_usage)
  show ?case
    using Cons.IH [of "process_event hb st te"] step
    by (auto simp: spec_usage_Cons split: option.split if_splits)
qed

section \<open>Results of a run\<close>

code_pred consumer_step .

lemma init_consumer_fields [simp]:
  "timeToFirstToken init_consumer = 0" "firstTokenSeen init_consumer = False"
  "accumulatedContent init_consumer = []" "estimatedTokens init_consumer = 0"
  "promptTokens init_consumer = 0" "completionTokens init_consumer = 0"
  "bar_adds init_consumer = []"
  by (simp_all add: init_consumer_def)

lemma finalize_usage_fields [run_simps]:
  "accumulatedContent (finalize_usage hb st) = accumulatedContent st"
  "timeToFirstToken (finalize_usage hb st) = timeToFirstToken st"
  "promptTokens (finalize_usage hb st) = promptTokens st"
  "estimatedTokens (finalize_usage hb st) = estimatedTokens st"
  "completionTokens (finalize_usage hb st) =
     (if completionTokens st = 0 then estimatedTokens st else completionTokens st)"
  by (simp_all add: finalize_usage_def bar_add_def Let_def)

lemma finalize_usage_adds_sum:
  "0 \<le> completionTokens st \<Longrightarrow>
   sum_list (bar_adds (finalize_usage True st)) =
     sum_list (bar_adds st) + (completionTokens (finalize_usage True st) - estimatedTokens st)"
  by (auto simp: finalize_usage_def bar_add_def Let_def)

lemma stream_loop_init [run_simps]:
  "timeToFirstToken (stream_loop hb init_consumer tes) =
     (case spec_first_token tes of None \<Rightarrow> 0 | Some t \<Rightarrow> t)"
  "firstTokenSeen (stream_loop hb init_consumer tes) = (spec_first_token tes \<noteq> None)"
  "promptTokens (stream_loop hb init_consumer tes) =
     (case spec_usage tes of None \<Rightarrow> 0 | Some (p, c) \<Rightarrow> p)"
  "completionTokens (stream_loop hb init_consumer tes) =
     (case spec_usage tes of None \<Rightarrow> 0 | Some (p, c) \<Rightarrow> c)"
  using stream_loop_first_token [of hb init_consumer tes]
    stream_loop_usage [of hb init_consumer tes]
  by (auto simp: split: option.splits)

lemma spec_usage_Some_in:
  "spec_usage tes = Some (p, c) \<Longrightarrow> \<exists>te \<in> set tes. usage_completion_tokens (snd te) = c"
proof -
  assume u: "spec_usage tes = Some (p, c)"
  then obtain ev evs where r: "rev (filter has_usage (map snd tes)) = ev # evs"
    and "usage_completion_tokens ev = c"
    by (auto simp: spec_usage_def split: list.splits)
  moreover from r have "ev \<in> set (map snd tes)"
    by (metis filter_is_subset list.set_intros(1) set_rev subsetD)
  ultimately show ?thesis by auto
qed

lemma askOpenAi_Some_err:
  "server (build_request model prompt maxTokens) = s \<Longrightarrow> stream_err s = Some e \<Longrightarrow>
   askOpenAi server model prompt maxTokens hb =
     (Inl (StreamError e), bar_adds (stream_loop hb init_consumer (events s)))"
  by (simp add: askOpenAi_def)

lemma askOpenAi_None_err:
  "server (build_request model prompt maxTokens) = s \<Longrightarrow> stream_err s = None \<Longrightarrow>
   askOpenAi server model prompt maxTokens hb =
     (let st = finalize_usage hb (stream_loop hb init_consumer (events s))
      in (Inr (metrics_of st), bar_adds st))"
  by (simp add: askOpenAi_def)

lemma stream_loop_snoc:
  "stream_loop hb st (tes @ [te]) = process_event hb (stream_loop hb st tes) te"
  by (induction tes arbitrary: st) simp_all

lemma spec_usage_last:
  "\<not> list_ex (has_usage \<circ> snd) post \<Longrightarrow> has_usage ev \<Longrightarrow>
   spec_usage (pre @ (t0, ev) # post) = Some (usage_prompt_tokens ev, usage_completion_tokens ev)"
proof -
  assume post: "\<not> list_ex (has_usage \<circ> snd) post" and ev: "has_usage ev"
  from post have "filter has_usage (map snd post) = []"
    by (simp add: list_ex_iff filter_empty_conv)
  with ev show ?thesis by (simp add: spec_usage_def)
qed

section \<open>The step relation\<close>

inductive_cases step_from_Start: "consumer_step hb s Start c"
inductive_cases step_from_Streaming: "consumer_step hb s (Streaming st tes) c"
inductive_cases step_from_Finalized: "consumer_step hb s (Finalized st) c"
inductive_cases step_from_Failed: "consumer_step hb s (Failed e adds) c"

lemma consumer_step_deterministic:
  "consumer_step hb s c c1 \<Longrightarrow> consumer_step hb s c c2 \<Longrightarrow> c1 = c2"
  by (induction rule: consumer_step.induct) (auto elim: consumer_step.cases)

lemma consumer_step_terminal:
  "\<not> consumer_step hb s (Finalized st) c" "\<not> consumer_step hb s (Failed e adds) c"
  by (auto elim: step_from_Finalized step_from_Failed)

lemma streaming_run:
  "(consumer_step hb s ^^ length tes) (Streaming st tes) (Streaming (stream_loop hb st tes) [])"
proof (induction tes arbitrary: st)
  case Nil
  then show ?case by simp
next
  case (Cons te tes)
  show ?case
    using relpowp_Suc_I2 [OF consumer_step.next_event [of hb s st te tes]
        Cons.IH [of "process_event hb st te"]]
    by simp
qed

lemma reachable_streaming_prefix:
  "reachable hb s c \<Longrightarrow>
   (case c of
      Streaming st tes \<Rightarrow> \<exists>pre. events s = pre @ tes \<and> st = stream_loop hb init_consumer pre
    | _ \<Rightarrow> True)"
proof (induction rule: reachable.induct)
  case reach_start
  then show ?case by simp
next
  case (reach_step c c')
  from reach_step.hyps(2) reach_step.IH show ?case
  proof cases
    case start
    then show ?thesis by simp
  next
    case (next_event st te tes)
    with reach_step.IH obtain pre where
      "events s = pre @ te # tes" and "st = stream_loop hb init_consumer pre"
      by auto
    with next_event show ?thesis
      by (auto intro!: exI [of _ "pre @ [te]"] simp: stream_loop_snoc)
  qed simp_all
qed

text \<open>
  C1. On a stream that ends without error, \<open>AskOpenAi\<close> returns exactly the
  specified metrics: the concatenated first-choice deltas, the time of the first
  delta with visible text (0 if none), the completion count of the last usage
  record with a positive count unless that count is 0, in which case the sum of
  the chunk estimates, and that record's prompt count (0 if none).
\<close>

theorem askOpenAi_success:
  "server (build_request model prompt maxTokens) = s \<Longrightarrow> stream_err s = None \<Longrightarrow>
   fst (askOpenAi server model prompt maxTokens hb) = Inr (spec_metrics (events s))"
  by (simp add: askOpenAi_None_err metrics_of_def spec_metrics_def spec_completion_def
      run_simps split: option.split)

text \<open>
  C2. Usage reconciliation: when a progress bar is supplied, the stream succeeds and
  the server never reports a negative completion count, the calls \<open>AskOpenAi\<close>
  makes on the bar add up to exactly the completion count it returns.
\<close>

theorem askOpenAi_progress_reconciled:
  assumes "server (build_request model prompt maxTokens) = s" and "stream_err s = None"
    and "\<forall>te \<in> set (events s). 0 \<le> usage_completion_tokens (snd te)"
    and "askOpenAi server model prompt maxTokens True = (Inr m, adds)"
  shows "sum_list adds = rm_completionTokens m"
proof -
  let ?st = "stream_loop True init_consumer (events s)"
  have nonneg: "0 \<le> completionTokens ?st"
    using assms(3) spec_usage_Some_in [of "events s"]
    by (auto simp: run_simps split: option.split)
  have est: "sum_list (bar_adds ?st) = estimatedTokens ?st"
    by (simp add: run_simps spec_estimate_def)
  from assms(1,2,4) have "m = metrics_of (finalize_usage True ?st)"
    and "adds = bar_adds (finalize_usage True ?st)"
    by (simp_all add: askOpenAi_None_err Let_def)
  with finalize_usage_adds_sum [OF nonneg] est show ?thesis
    by (simp add: metrics_of_def)
qed

text \<open>
  C3. When the stream reports an error, \<open>AskOpenAi\<close> returns the wrapped
  \<open>StreamError\<close> and no metrics; the estimates of the chunks already read have
  been added to the progress bar and are not taken back.
\<close>

theorem askOpenAi_stream_error:
  "server (build_request model prompt maxTokens) = s \<Longrightarrow> stream_err s = Some e \<Longrightarrow>
   askOpenAi server model prompt maxTokens hb =
     (Inl (StreamError e), if hb then spec_adds (events s) else [])"
  by (simp add: askOpenAi_Some_err run_simps)

text \<open>
  C4. In every reachable streaming phase, the time to first token is the arrival
  time of the first processed delta whose trimmed text is non-empty, and 0 while
  there is none; the flag \<open>firstTokenSeen\<close> says whether there is one.
\<close>

theorem reachable_first_token:
  "reachable hb s (Streaming st tes) \<Longrightarrow>
   \<exists>pre. events s = pre @ tes \<and>
     firstTokenSeen st = (spec_first_token pre \<noteq> None) \<and>
     timeToFirstToken st = (case spec_first_token pre of None \<Rightarrow> 0 | Some t \<Rightarrow> t)"
proof -
  assume "reachable hb s (Streaming st tes)"
  from reachable_streaming_prefix [OF this] obtain pre where
    "events s = pre @ tes" and "st = stream_loop hb init_consumer pre"
    by auto
  then show ?thesis by (auto simp: run_simps)
qed

text \<open>
  C5. Once the first token has been seen, no later step changes the recorded time
  to first token.
\<close>

theorem ttft_never_overwritten:
  "consumer_step hb s (Streaming st tes) c' \<Longrightarrow> firstTokenSeen st \<Longrightarrow>
   (case c' of
      Streaming st' tes' \<Rightarrow> firstTokenSeen st' \<and> timeToFirstToken st' = timeToFirstToken st
    | Finalized st' \<Rightarrow> timeToFirstToken st' = timeToFirstToken st
    | _ \<Rightarrow> True)"
proof (erule step_from_Streaming)
  fix te tes'
  assume "c' = Streaming (process_event hb st te) tes'" and "firstTokenSeen st"
  with process_event_first_token [of hb st te] show ?thesis by simp
qed (simp_all add: run_simps)

theorem askOpenAi_success_witness:
  "stream_err ex_hello_world = None \<and>
   fst (askOpenAi (\<lambda>_. ex_hello_world) ''gpt'' ''Say hello'' 16 True) =
     Inr (spec_metrics (events ex_hello_world))"
  using askOpenAi_success [of "\<lambda>_. ex_hello_world" "''gpt''" "''Say hello''" 16 ex_hello_world True]
  by (simp add: ex_hello_world_def)

theorem askOpenAi_progress_reconciled_witness:
  "askOpenAi (\<lambda>_. ex_hello_world) ''gpt'' ''Say hello'' 16 True =
     (Inr \<lparr>rm_content = ''Hello world'', rm_timeToFirstToken = 0.25,
           rm_completionTokens = 3, rm_promptTokens = 5\<rparr>, [1, 1, 1]) \<and>
   sum_list [1, 1, (1::int)] = 3"
proof -
  have run: "askOpenAi (\<lambda>_. ex_hello_world) ''gpt'' ''Say hello'' 16 True =
     (Inr \<lparr>rm_content = ''Hello world'', rm_timeToFirstToken = 0.25,
           rm_completionTokens = 3, rm_promptTokens = 5\<rparr>, [1, 1, 1])"
    by (simp add: model_defs)
  have "\<forall>te \<in> set (events ex_hello_world). 0 \<le> usage_completion_tokens (snd te)"
    by (simp add: model_defs)
  from askOpenAi_progress_reconciled [OF _ _ this run] run show ?thesis
    by (simp add: ex_hello_world_def)
qed

theorem askOpenAi_stream_error_witness:
  "stream_err ex_failed = Some ''connection reset'' \<and>
   askOpenAi (\<lambda>_. ex_failed) ''gpt'' ''p'' 16 True =
     (Inl (StreamError ''connection reset''), [0, 2])"
proof -
  have e: "stream_err ex_failed = Some ''connection reset''" by (simp add: ex_failed_def)
  have "spec_adds (events ex_failed) = [0, 2]" by (simp add: model_defs)
  with askOpenAi_stream_error [of "\<lambda>_. ex_failed" "''gpt''" "''p''" 16 ex_failed
      "''connection reset''" True] e
  show ?thesis by simp
qed

theorem reachable_first_token_witness:
  "reachable True ex_hello_world
     (Streaming (process_event True (process_event True init_consumer (text_event 0.25 ''Hello''))
        (text_event 0.5 '' world'')) [usage_event 0.75 5 3]) \<and>
   (\<exists>pre. events ex_hello_world = pre @ [usage_event 0.75 5 3] \<and>
     firstTokenSeen (process_event True (process_event True init_consumer (text_event 0.25 ''Hello''))
        (text_event 0.5 '' world'')) = (spec_first_token pre \<noteq> None) \<and>
     timeToFirstToken (process_event True (process_event True init_consumer (text_event 0.25 ''Hello''))
        (text_event 0.5 '' world'')) =
       (case spec_first_token pre of None \<Rightarrow> 0 | Some t \<Rightarrow> t))"
proof -
  have ev: "events ex_hello_world =
      [text_event 0.25 ''Hello'', text_event 0.5 '' world'', usage_event 0.75 5 3]"
    by (simp add: ex_hello_world_def)
  have r1: "reachable True ex_hello_world (Streaming init_consumer (events ex_hello_world))"
    by (rule reach_step [OF reach_start start])
  have r: "reachable True ex_hello_world
     (Streaming (process_event True (process_event True init_consumer (text_event 0.25 ''Hello''))
        (text_event 0.5 '' world'')) [usage_event 0.75 5 3])"
    by (rule reach_step [OF reach_step [OF r1 [unfolded ev] next_event] next_event])
  from reachable_first_token [OF r] r show ?thesis by blast
qed

theorem ttft_never_overwritten_witness:
  "consumer_step True ex_hello_world
     (Streaming (process_event True init_consumer (text_event 0.25 ''Hello''))
        [text_event 0.5 '' world'', usage_event 0.75 5 3])
     (Streaming (process_event True (process_event True init_consumer (text_event 0.25 ''Hello''))
        (text_event 0.5 '' world'')) [usage_event 0.75 5 3]) \<and>
   firstTokenSeen (process_event True init_consumer (text_event 0.25 ''Hello'')) \<and>
   timeToFirstToken (process_event True (process_event True init_consumer (text_event 0.25 ''Hello''))
        (text_event 0.5 '' world'')) = 0.25"
proof -
  have seen: "firstTokenSeen (process_event True init_consumer (text_event 0.25 ''Hello''))"
    and t: "timeToFirstToken (process_event True init_consumer (text_event 0.25 ''Hello'')) = 0.25"
    by (simp_all add: model_defs)
  from ttft_never_overwritten [OF next_event seen] seen t next_event show ?thesis by simp
qed

text \<open>
  C22. A usage record with a positive prompt count and a zero completion count
  resets the completion count: when it is the last usage record of a successful
  stream, \<open>AskOpenAi\<close> returns the sum of the chunk estimates as completion
  count, whatever completion count an earlier record carried (the spec asks for
  the latest non-zero value), returns that record's prompt count, and does not
  correct the bar.
\<close>

theorem askOpenAi_usage_reset:
  "server (build_request model prompt maxTokens) = s \<Longrightarrow> stream_err s = None \<Longrightarrow>
   events s = pre @ (t0, ev) # post \<Longrightarrow> usage_prompt_tokens ev > 0 \<Longrightarrow>
   usage_completion_tokens ev = 0 \<Longrightarrow> \<not> list_ex (has_usage \<circ> snd) post \<Longrightarrow>
   askOpenAi server model prompt maxTokens True =
     (Inr \<lparr>rm_content = spec_content (events s),
           rm_timeToFirstToken = (case spec_first_token (events s) of None \<Rightarrow> 0 | Some t \<Rightarrow> t),
           rm_completionTokens = spec_estimate (events s),
           rm_promptTokens = usage_prompt_tokens ev\<rparr>,
      spec_adds (events s))"
  by (simp add: askOpenAi_None_err finalize_usage_def metrics_of_def Let_def run_simps
      spec_usage_last has_usage_def)

theorem askOpenAi_usage_reset_witness:
  "events ex_usage_reset = [text_event 0.1 ''Hi'', usage_event 0.2 5 3] @
     (fst (usage_event 0.3 5 0), snd (usage_event 0.3 5 0)) # [] \<and>
   askOpenAi (\<lambda>_. ex_usage_reset) ''gpt'' ''p'' 16 True =
     (Inr \<lparr>rm_content = ''Hi'', rm_timeToFirstToken = 0.1,
           rm_completionTokens = 1, rm_promptTokens = 5\<rparr>, [1])"
proof -
  have ev: "events ex_usage_reset = [text_event 0.1 ''Hi'', usage_event 0.2 5 3] @
      (fst (usage_event 0.3 5 0), snd (usage_event 0.3 5 0)) # []"
    by (simp add: ex_usage_reset_def)
  from askOpenAi_usage_reset [OF _ _ ev, of "\<lambda>_. ex_usage_reset" "''gpt''" "''p''" 16] ev
  show ?thesis by (simp add: model_defs)
qed

text \<open>
  C23. A usage record with a negative completion count is taken as it is: when
  it is the last usage record of a successful stream, \<open>AskOpenAi\<close> returns that
  negative count as completion count, although the spec requires
  \<open>completionTokens >= 0\<close>, while the bar, corrected only for positive counts,
  keeps the sum of the chunk estimates.
\<close>

theorem askOpenAi_negative_usage:
  "server (build_request model prompt maxTokens) = s \<Longrightarrow> stream_err s = None \<Longrightarrow>
   events s = pre @ (t0, ev) # post \<Longrightarrow> usage_prompt_tokens ev > 0 \<Longrightarrow>
   usage_completion_tokens ev < 0 \<Longrightarrow> \<not> list_ex (has_usage \<circ> snd) post \<Longrightarrow>
   askOpenAi server model prompt maxTokens True =
     (Inr \<lparr>rm_content = spec_content (events s),
           rm_timeToFirstToken = (case spec_first_token (events s) of None \<Rightarrow> 0 | Some t \<Rightarrow> t),
           rm_completionTokens = usage_completion_tokens ev,
           rm_promptTokens = usage_prompt_tokens ev\<rparr>,
      spec_adds (events s))"
  by (simp add: askOpenAi_None_err finalize_usage_def metrics_of_def Let_def run_simps
      spec_usage_last has_usage_def)

theorem askOpenAi_negative_usage_witness:
  "events ex_negative_usage = [text_event 0.1 ''Hi''] @
     (fst (usage_event 0.2 5 (-2)), snd (usage_event 0.2 5 (-2))) # [] \<and>
   askOpenAi (\<lambda>_. ex_negative_usage) ''gpt'' ''p'' 16 True =
     (Inr \<lparr>rm_content = ''Hi'', rm_timeToFirstToken = 0.1,
           rm_completionTokens = -2, rm_promptTokens = 5\<rparr>, [1])"
proof -
  have ev: "events ex_negative_usage = [text_event 0.1 ''Hi''] @
      (fst (usage_event 0.2 5 (-2)), snd (usage_event 0.2 5 (-2))) # []"
    by (simp add: ex_negative_usage_def)
  from askOpenAi_negative_usage [OF _ _ ev, of "\<lambda>_. ex_negative_usage" "''gpt''" "''p''" 16] ev
  show ?thesis by (simp add: model_defs)
qed

end
