(* ===== verification/PromptSynth.thy ===== *)
theory PromptSynth
  imports GoStrings
begin

text \<open>
  The prompt synthesizer of \<^verbatim>\<open>src/internal/api/random_prompt.go\<close>:
  \<open>generateRandomWord\<close>, \<open>generateRandomPhrase\<close> and its exported wrapper.
  The pseudo-random source of \<open>math/rand\<close> is an interface: \<open>rng_seed\<close> is
  \<open>rand.Seed\<close> (its new state from the old one and the seed, so that the no-op
  seeding of recent Go releases is an instance too) and \<open>rng_intn\<close> is
  \<open>rand.Intn\<close>, whose documented contract \<open>intn_ok\<close> is that for \<open>n > 0\<close> it
  returns a value in \<open>[0, n)\<close>. The lemmas hold for every source that keeps that
  contract. \<open>time.Now().UnixNano()\<close> is the input \<open>now\<close>.
  \<open>make([]string, numWords)\<close> panics when \<open>numWords\<close> is negative; that panic is
  the value \<open>Inl MakeSliceLenOutOfRange\<close>.
  The lemmas show that every word has 3 to 10 lowercase letters, that a
  phrase is the fixed prefix followed by exactly \<open>numWords\<close> such words joined by
  spaces, that \<open>strings.Fields\<close> recovers the words from it, and that a
  negative word count panics.
\<close>

section \<open>Definitions\<close>

record 's rng =
  rng_seed :: "'s \<Rightarrow> int \<Rightarrow> 's"
  rng_intn :: "'s \<Rightarrow> go_int \<Rightarrow> go_int \<times> 's"

definition intn_ok :: "'s rng \<Rightarrow> bool" where
  "intn_ok r \<longleftrightarrow> (\<forall>s n. 0 < n \<longrightarrow> 0 \<le> fst (rng_intn r s n) \<and> fst (rng_intn r s n) < n)"

datatype go_panic = MakeSliceLenOutOfRange

definition minWordLength :: go_int where "minWordLength = 3"

definition maxWordLength :: go_int where "maxWordLength = 10"

definition letters :: string where "letters = ''abcdefghijklmnopqrstuvwxyz''"

text \<open>The letter loop of \<open>generateRandomWord\<close> (lines 23--25): one draw per letter, in order.\<close>

fun random_letters :: "'s rng \<Rightarrow> nat \<Rightarrow> 's \<Rightarrow> string \<times> 's" where
  "random_letters r 0 s = ([], s)"
| "random_letters r (Suc k) s =
     (let (i, s1) = rng_intn r s (int (length letters));
          (w, s2) = random_letters r k s1
      in (letters ! nat i # w, s2))"

definition generateRandomWord :: "'s rng \<Rightarrow> 's \<Rightarrow> string \<times> 's" where
  "generateRandomWord r s =
     (let (d, s1) = rng_intn r s (maxWordLength - minWordLength + 1);
          wordLength = minWordLength + d
      in random_letters r (nat wordLength) s1)"

text \<open>The word loop of \<open>generateRandomPhrase\<close> (lines 35--37).\<close>

fun random_words :: "'s rng \<Rightarrow> nat \<Rightarrow> 's \<Rightarrow> string list \<times> 's" where
  "random_words r 0 s = ([], s)"
| "random_words r (Suc k) s =
     (let (w, s1) = generateRandomWord r s;
          (ws, s2) = random_words r k s1
      in (w # ws, s2))"

definition prompt_prefix :: string where
  "prompt_prefix = ''Please reply back the following section unchanged: ''"

definition generateRandomPhrase :: "'s rng \<Rightarrow> 's \<Rightarrow> int \<Rightarrow> go_int \<Rightarrow> go_panic + string \<times> 's" where
  "generateRandomPhrase r s now numWords =
     (let s0 = rng_seed r s now
      in if numWords < 0 then Inl MakeSliceLenOutOfRange
         else (let (randomWords, s1) = random_words r (nat numWords) s0;
                   randomPhrase = join randomWords '' ''
               in Inr (prompt_prefix @ randomPhrase, s1)))"

definition GenerateRandomPhrase :: "'s rng \<Rightarrow> 's \<Rightarrow> int \<Rightarrow> go_int \<Rightarrow> go_panic + string \<times> 's" where
  "GenerateRandomPhrase r s now numWords = generateRandomPhrase r s now numWords"

text \<open>A word as the contract describes it: 3 to 10 lowercase ASCII letters.\<close>

definition valid_word :: "string \<Rightarrow> bool" where
  "valid_word w \<longleftrightarrow> 3 \<le> length w \<and> length w \<le> 10 \<and> list_all (\<lambda>c. c \<in> set letters) w"

text \<open>A concrete source for the witnesses: a linear congruential generator.\<close>

definition lcg :: "int rng" where
  "lcg = \<lparr>rng_seed = (\<lambda>_ t. t mod 2147483648),
          rng_intn = (\<lambda>s n. (s mod n, (1103515245 * s + 12345) mod 2147483648))\<rparr>"

declare minWordLength_def [model_defs] maxWordLength_def [model_defs] letters_def [model_defs]
  generateRandomWord_def [model_defs] prompt_prefix_def [model_defs]
  generateRandomPhrase_def [model_defs] GenerateRandomPhrase_def [model_defs]
  valid_word_def [model_defs] lcg_def [model_defs]

section \<open>Lemmas\<close>

lemma intn_okD: "intn_ok r \<Longrightarrow> 0 < n \<Longrightarrow> 0 \<le> fst (rng_intn r s n) \<and> fst (rng_intn r s n) < n"
  by (simp add: intn_ok_def)

lemma random_letters_length: "length (fst (random_letters r k s)) = k"
  by (induction k arbitrary: s) (simp_all add: split_beta)

lemma random_letters_in_letters:
  "intn_ok r \<Longrightarrow> c \<in> set (fst (random_letters r k s)) \<Longrightarrow> c \<in> set letters"
proof (induction k arbitrary: s)
  case 0
  then show ?case by simp
next
  case (Suc k)
  let ?i = "fst (rng_intn r s (int (length letters)))"
  have "0 \<le> ?i \<and> ?i < int (length letters)"
    using intn_okD [OF Suc.prems(1)] by (simp add: letters_def)
  then have "nat ?i < length letters" by (simp add: nat_less_iff)
  then have "letters ! nat ?i \<in> set letters" by (rule nth_mem)
  with Suc show ?case by (auto simp: split_beta)
qed

lemma random_words_length: "length (fst (random_words r k s)) = k"
  by (induction k arbitrary: s) (simp_all add: split_beta)

lemma letters_not_space: "c \<in> set letters \<Longrightarrow> \<not> is_space c"
  by (auto simp: letters_def is_space_def)

lemma letters_ascii: "c \<in> set letters \<Longrightarrow> byte c < 128"
  by (auto simp: letters_def byte_def)

lemma intn_ok_lcg: "intn_ok lcg"
  by (simp add: intn_ok_def lcg_def)

lemma random_words_valid:
  "(\<And>s. valid_word (fst (generateRandomWord r s))) \<Longrightarrow>
   list_all valid_word (fst (random_words r k s))"
  by (induction k arbitrary: s) (simp_all add: split_beta)

lemma valid_word_space_free: "valid_word w \<Longrightarrow> space_free_word w"
  by (auto simp: valid_word_def space_free_word_def list_all_iff letters_not_space letters_ascii)

lemma generateRandomWord_valid_word:
  "intn_ok r \<Longrightarrow> valid_word (fst (generateRandomWord r s))"
proof -
  assume ok: "intn_ok r"
  let ?d = "fst (rng_intn r s 8)"
  have d: "0 \<le> ?d \<and> ?d < 8" using intn_okD [OF ok, of 8 s] by simp
  let ?w = "fst (random_letters r (nat (3 + ?d)) (snd (rng_intn r s 8)))"
  have gen: "fst (generateRandomWord r s) = ?w"
    by (simp add: generateRandomWord_def minWordLength_def maxWordLength_def split_beta)
  have "length ?w = nat (3 + ?d)" by (rule random_letters_length)
  with d have len: "3 \<le> length ?w \<and> length ?w \<le> 10" by arith
  have "list_all (\<lambda>c. c \<in> set letters) ?w"
    using random_letters_in_letters [OF ok] by (simp add: list_all_iff)
  with len gen show ?thesis by (simp add: valid_word_def)
qed

lemma generateRandomPhrase_words:
  "0 \<le> n \<Longrightarrow>
   generateRandomPhrase r s now n =
     Inr (prompt_prefix @ join (fst (random_words r (nat n) (rng_seed r s now))) '' '',
          snd (random_words r (nat n) (rng_seed r s now)))"
  by (simp add: generateRandomPhrase_def split_beta Let_def)

lemma random_words_valid_ok:
  "intn_ok r \<Longrightarrow> list_all valid_word (fst (random_words r k s))"
  by (rule random_words_valid) (rule generateRandomWord_valid_word)

section \<open>Properties\<close>

text \<open>
  C11. Every word \<open>generateRandomWord\<close> produces has between 3 and 10 characters,
  each a lowercase ASCII letter, for any random source that keeps the contract of
  \<open>rand.Intn\<close>.
\<close>

theorem generateRandomWord_valid: "intn_ok r \<Longrightarrow> valid_word (fst (generateRandomWord r s))"
  by (rule generateRandomWord_valid_word)

theorem generateRandomWord_valid_witness:
  "intn_ok lcg \<and> valid_word (fst (generateRandomWord lcg 42))"
  using generateRandomWord_valid [OF intn_ok_lcg, of 42] intn_ok_lcg by simp

text \<open>
  C12. For a non-negative word count \<open>n\<close>, \<open>generateRandomPhrase\<close> returns the fixed
  instruction prefix followed by exactly \<open>n\<close> valid words joined by single
  spaces, and \<open>strings.Fields\<close> of the part after the prefix gives back exactly
  those words.
\<close>

theorem generateRandomPhrase_structure:
  "intn_ok r \<Longrightarrow> 0 \<le> n \<Longrightarrow>
   \<exists>ws s'. generateRandomPhrase r s now n = Inr (prompt_prefix @ join ws '' '', s') \<and>
     int (length ws) = n \<and> list_all valid_word ws \<and>
     Fields (drop (length prompt_prefix) (prompt_prefix @ join ws '' '')) = ws"
proof -
  assume ok: "intn_ok r" and n: "0 \<le> n"
  let ?res = "random_words r (nat n) (rng_seed r s now)"
  have valid: "list_all valid_word (fst ?res)" by (rule random_words_valid_ok [OF ok])
  then have "list_all space_free_word (fst ?res)"
    by (simp add: list_all_iff valid_word_space_free)
  then have "Fields (join (fst ?res) '' '') = fst ?res" by (rule fields_join_space)
  moreover have "int (length (fst ?res)) = n" using n by (simp add: random_words_length)
  moreover note generateRandomPhrase_words [OF n, of r s now]
  ultimately show ?thesis using valid by auto
qed

theorem generateRandomPhrase_structure_witness:
  "\<exists>ws s'. generateRandomPhrase lcg 0 1700000000 3 = Inr (prompt_prefix @ join ws '' '', s') \<and>
     int (length ws) = 3 \<and> list_all valid_word ws \<and>
     Fields (drop (length prompt_prefix) (prompt_prefix @ join ws '' '')) = ws"
  using generateRandomPhrase_structure [OF intn_ok_lcg, of 3 0 1700000000] by simp

text \<open>
  C13. A negative word count makes \<open>generateRandomPhrase\<close> panic in
  \<open>make([]string, numWords)\<close> before any word is drawn; the spec assumes
  \<open>n \<ge> 0\<close> and does not say what happens otherwise.
\<close>

theorem generateRandomPhrase_negative_panics:
  "n < 0 \<Longrightarrow> generateRandomPhrase r s now n = Inl MakeSliceLenOutOfRange"
  by (simp add: generateRandomPhrase_def)

theorem generateRandomPhrase_negative_panics_witness:
  "(-1 :: int) < 0 \<and> generateRandomPhrase lcg 0 1700000000 (-1) = Inl MakeSliceLenOutOfRange"
  using generateRandomPhrase_negative_panics [of "-1" lcg 0 1700000000] by simp

end
