(* ===== verification/Catalog.thy ===== *)
theory Catalog
  imports Prelude
begin

text \<open>
  \<open>GetFirstAvailableModel\<close> of \<^verbatim>\<open>src/internal/api/api_client.go\<close> (lines
  131--144). The answer of \<open>client.Models.List\<close> is an input: the error it
  returned (as text) or the list of models. The lemma states the contract of
  section 6 of the spec: an error exactly when the listing fails or is empty,
  otherwise the identifier of the first model.
\<close>

section \<open>Definitions\<close>

record model_info =
  model_id :: string

definition getFirstAvailableModel :: "string + model_info list \<Rightarrow> api_error + string" where
  "getFirstAvailableModel listed =
     (case listed of
        Inl err \<Rightarrow> Inl (ListModelsFailed err)
      | Inr modelList \<Rightarrow>
          (if length modelList = 0 then Inl NoModelsAvailable
           else Inr (model_id (modelList ! 0))))"

declare getFirstAvailableModel_def [model_defs]

section \<open>Properties\<close>

text \<open>
  C21. \<open>GetFirstAvailableModel\<close> succeeds exactly when the listing succeeds with a
  non-empty list, and then returns the first model's identifier; a failed listing
  gives the wrapped \<open>ListModelsFailed\<close> error and an empty one
  \<open>NoModelsAvailable\<close>.
\<close>

theorem getFirstAvailableModel_contract:
  "(getFirstAvailableModel listed = Inr m \<longleftrightarrow>
      (\<exists>mi ms. listed = Inr (mi # ms) \<and> m = model_id mi)) \<and>
   (getFirstAvailableModel listed = Inl NoModelsAvailable \<longleftrightarrow> listed = Inr []) \<and>
   (getFirstAvailableModel listed = Inl (ListModelsFailed e) \<longleftrightarrow> listed = Inl e)"
  by (auto simp: getFirstAvailableModel_def neq_Nil_conv split: sum.split)

end
