(* ===== verification/Progress.thy ===== *)
theory Progress
  imports Prelude
begin

text \<open>
  The shared progress indicator and the concurrent exchanges that increment it.
  The indicator is a library type outside the repository
  (\<open>progressbar.ProgressBar\<close>); it is modelled from the spec (sections 5 and 6):
  a counter with one thread-safe \<open>Add\<close>. The orchestrator that runs one
  exchange per simulated client is not part of the sources either; its effect on
  the bar is, abstractly, an arbitrary interleaving of the exchanges' sequences of
  \<open>Add\<close> calls, each kept in its own order; the schedules of \<open>Level\<close> produce
  such interleavings. The lemmas show that no increment is lost (whatever the
  interleaving, the final count is the initial count plus the sum of all
  increments) and that a call appended to one exchange's calls extends the
  interleaving.
\<close>

section \<open>Definitions\<close>

record progress_bar =
  current :: go_int

definition bar_Add :: "go_int \<Rightarrow> progress_bar \<Rightarrow> progress_bar" where
  "bar_Add n b = b\<lparr>current := current b + n\<rparr>"

definition apply_adds :: "go_int list \<Rightarrow> progress_bar \<Rightarrow> progress_bar" where
  "apply_adds ns b = fold bar_Add ns b"

text \<open>The possible orders of the calls of several exchanges, each in its own order.\<close>

inductive interleaving :: "'a list list \<Rightarrow> 'a list \<Rightarrow> bool" where
  il_nil: "interleaving [] []"
| il_cons: "interleaving xss zs \<Longrightarrow> zs' \<in> shuffles xs zs \<Longrightarrow> interleaving (xs # xss) zs'"

declare bar_Add_def [model_defs] apply_adds_def [model_defs]

section \<open>Lemmas\<close>

lemma current_apply_adds: "current (apply_adds ns b) = current b + sum_list ns"
  by (induction ns arbitrary: b) (simp_all add: apply_adds_def bar_Add_def)

lemma mset_shuffles_member: "zs \<in> shuffles xs ys \<Longrightarrow> mset zs = mset xs + mset ys"
  by (induction xs ys arbitrary: zs rule: shuffles.induct) auto

lemma interleaving_mset: "interleaving xss zs \<Longrightarrow> mset zs = sum_list (map mset xss)"
  by (induction rule: interleaving.induct) (simp_all add: mset_shuffles_member)

lemma interleaving_concat: "interleaving xss (concat xss)"
proof (induction xss)
  case Nil
  then show ?case by (simp add: il_nil)
next
  case (Cons xs xss)
  have "xs @ concat xss \<in> shuffles xs (concat xss)" by (rule append_mem_shuffles)
  with Cons show ?case by (auto intro: il_cons)
qed

lemma interleaving_sum_list:
  "interleaving xss (zs :: 'a::comm_monoid_add list) \<Longrightarrow>
   sum_list zs = sum_list (map sum_list xss)"
proof -
  assume "interleaving xss zs"
  then have "sum_mset (mset zs) = sum_mset (sum_list (map mset xss))"
    by (simp add: interleaving_mset)
  also have "\<dots> = sum_list (map sum_list xss)"
    by (induction xss) (simp_all add: sum_mset_sum_list)
  finally show ?thesis by (simp add: sum_mset_sum_list)
qed

lemma shuffles_snoc_left: "zs \<in> shuffles xs ys \<Longrightarrow> zs @ ws \<in> shuffles (xs @ ws) ys"
proof (induction zs arbitrary: xs ys)
  case Nil
  then show ?case by simp
next
  case (Cons z zs)
  then show ?case
    by (auto simp: Cons_in_shuffles_iff intro: Cons_in_shuffles_leftI Cons_in_shuffles_rightI)
qed

lemma shuffles_snoc_right: "zs \<in> shuffles xs ys \<Longrightarrow> zs @ ws \<in> shuffles xs (ys @ ws)"
  using shuffles_snoc_left [of zs ys xs ws] by (simp add: shuffles_commutes)

text \<open>A call appended to the calls of one exchange is appended to the interleaving.\<close>

lemma interleaving_snoc_at:
  "interleaving xss zs \<Longrightarrow> i < length xss \<Longrightarrow> interleaving (xss[i := xss ! i @ ws]) (zs @ ws)"
proof (induction arbitrary: i rule: interleaving.induct)
  case il_nil
  then show ?case by simp
next
  case (il_cons xss zs zs' xs)
  show ?case
  proof (cases i)
    case 0
    with il_cons show ?thesis by (auto intro: interleaving.il_cons shuffles_snoc_left)
  next
    case (Suc j)
    with il_cons show ?thesis by (auto intro: interleaving.il_cons shuffles_snoc_right)
  qed
qed

lemma interleaving_replicate_Nil: "interleaving (replicate n []) []"
  by (induction n) (auto intro: interleaving.intros)

section \<open>Properties\<close>

text \<open>
  No increment is lost: for every interleaving of the \<open>Add\<close> calls of
  concurrent exchanges, the bar ends at its initial count plus the sum of all
  the increments of all exchanges.
\<close>

theorem interleaving_no_lost_increment:
  "interleaving addss zs \<Longrightarrow>
   current (apply_adds zs b) = current b + sum_list (map sum_list addss)"
  by (simp add: current_apply_adds interleaving_sum_list)

end
