(* ===== verification/Level.thy ===== *)
theory Level
  imports StreamConsumer Progress
begin

text \<open>
  One concurrency level of the benchmark as a concurrent system. The orchestrator
  that launches one \<open>AskOpenAi\<close> per simulated client is not part of the sources;
  it is modelled from the spec (section 5): every exchange runs the consumer's
  protocol (\<open>consumer_step\<close>, \<^verbatim>\<open>api_client.go\<close> lines 15--97) with the shared bar, and
  a step of the level is one step of one exchange, chosen by the scheduler. The
  calls a step makes on the bar (\<open>bar.Add\<close>, at most one per step) happen in that
  step, atomically, as the spec requires of the indicator.
\<close>

section \<open>Exchanges of a level\<close>

text \<open>
  One exchange of a concurrency level, as the orchestrator launches it with the
  shared bar; its server, model, prompt and output budget.
\<close>

record exchange =
  ex_server :: "chat_request \<Rightarrow> stream"
  ex_model :: string
  ex_prompt :: string
  ex_maxTokens :: go_int

definition run_exchange :: "exchange \<Rightarrow> (api_error + run_metrics) \<times> go_int list" where
  "run_exchange e = askOpenAi (ex_server e) (ex_model e) (ex_prompt e) (ex_maxTokens e) True"

definition exchange_stream :: "exchange \<Rightarrow> stream" where
  "exchange_stream e = ex_server e (build_request (ex_model e) (ex_prompt e) (ex_maxTokens e))"

definition well_behaved :: "exchange \<Rightarrow> bool" where
  "well_behaved e \<longleftrightarrow>
     stream_err (exchange_stream e) = None \<and>
     list_all (\<lambda>te. 0 \<le> usage_completion_tokens (snd te)) (events (exchange_stream e))"

section \<open>The level as a transition system\<close>

text \<open>The calls an exchange has made on the bar by the time it is in a phase.\<close>

fun phase_adds :: "phase \<Rightarrow> go_int list" where
  "phase_adds Start = []"
| "phase_adds (Streaming st tes) = bar_adds st"
| "phase_adds (Finalized st) = bar_adds st"
| "phase_adds (Failed e adds) = adds"

text \<open>
  What the bar should show for an exchange in a phase (spec sections 4.3 and
  4.4): nothing before the request, the running estimate while streaming, the
  final completion count once finalised, and the estimates already reported
  when the stream failed.
\<close>

fun shown_progress :: "phase \<Rightarrow> go_int" where
  "shown_progress Start = 0"
| "shown_progress (Streaming st tes) = estimatedTokens st"
| "shown_progress (Finalized st) = completionTokens st"
| "shown_progress (Failed e adds) = sum_list adds"

text \<open>The phases of the exchanges, by index, and the shared bar.\<close>

record level_state =
  lv_phases :: "phase list"
  lv_bar :: progress_bar

definition level_init :: "exchange list \<Rightarrow> progress_bar \<Rightarrow> level_state" where
  "level_init es b = \<lparr>lv_phases = replicate (length es) Start, lv_bar = b\<rparr>"

definition level_finished :: "level_state \<Rightarrow> bool" where
  "level_finished ls \<longleftrightarrow> list_all (\<lambda>c. phase_outcome c \<noteq> None) (lv_phases ls)"

text \<open>
  A step of the level, labelled with the calls it makes on the bar: exchange
  \<open>i\<close> takes one step of its protocol, and the bar receives the calls that step
  adds to the exchange's own.
\<close>

inductive level_step :: "exchange list \<Rightarrow> level_state \<Rightarrow> go_int list \<Rightarrow> level_state \<Rightarrow> bool"
  for es :: "exchange list" where
  thread_step:
    "i < length (lv_phases ls) \<Longrightarrow>
     consumer_step True (exchange_stream (es ! i)) (lv_phases ls ! i) c' \<Longrightarrow>
     ns = drop (length (phase_adds (lv_phases ls ! i))) (phase_adds c') \<Longrightarrow>
     level_step es ls ns \<lparr>lv_phases = (lv_phases ls)[i := c'], lv_bar = apply_adds ns (lv_bar ls)\<rparr>"

text \<open>Runs of the level, with the calls on the bar in the order they happen.\<close>

inductive level_run :: "exchange list \<Rightarrow> level_state \<Rightarrow> go_int list \<Rightarrow> level_state \<Rightarrow> bool"
  for es :: "exchange list" where
  run_nil: "level_run es ls [] ls"
| run_snoc: "level_run es ls zs ls' \<Longrightarrow> level_step es ls' ns ls'' \<Longrightarrow> level_run es ls (zs @ ns) ls''"

declare run_exchange_def [model_defs] exchange_stream_def [model_defs] well_behaved_def [model_defs]
  level_init_def [model_defs] level_finished_def [model_defs]

text \<open>A level of two clients whose servers answer with the spec's two scenarios.\<close>

definition ex_level :: "exchange list" where
  "ex_level =
     [\<lparr>ex_server = \<lambda>_. ex_hello_world, ex_model = ''gpt'', ex_prompt = ''hi'', ex_maxTokens = 16\<rparr>,
      \<lparr>ex_server = \<lambda>_. ex_no_usage, ex_model = ''gpt'', ex_prompt = ''hi'', ex_maxTokens = 16\<rparr>]"

declare ex_level_def [model_defs]

section \<open>Steps of one exchange\<close>

lemma consumer_step_adds:
  "consumer_step hb s c c' \<Longrightarrow> phase_adds c' = phase_adds c @ drop (length (phase_adds c)) (phase_adds c')"
proof (induction rule: consumer_step.induct)
  case (next_event st te tes)
  then show ?case by (simp add: process_event_adds)
next
  case (stream_done st)
  then show ?case by (simp add: finalize_usage_def bar_add_def Let_def)
qed simp_all

lemma reachable_outcome:
  assumes r: "reachable hb s c" and srv: "server (build_request model prompt maxTokens) = s"
    and out: "phase_outcome c \<noteq> None"
  shows "phase_outcome c = Some (askOpenAi server model prompt maxTokens hb)"
  using r
proof cases
  case reach_start
  with out show ?thesis by (simp add: phase_outcome_def)
next
  case (reach_step c0)
  from reach_step(2) show ?thesis
  proof cases
    case (stream_failed err st)
    with reach_step(1) reachable_streaming_prefix [of hb s c0]
    have "st = stream_loop hb init_consumer (events s)" by auto
    with stream_failed srv show ?thesis by (simp add: askOpenAi_Some_err phase_outcome_def)
  next
    case (stream_done st)
    with reach_step(1) reachable_streaming_prefix [of hb s c0]
    have "st = stream_loop hb init_consumer (events s)" by auto
    with stream_done srv show ?thesis by (simp add: askOpenAi_None_err phase_outcome_def Let_def)
  qed (use out reach_step in \<open>simp_all add: phase_outcome_def\<close>)
qed

section \<open>Steps and runs of the level\<close>

inductive_cases level_stepE: "level_step es ls ns ls'"

lemma level_step_length:
  "level_step es ls ns ls' \<Longrightarrow> length (lv_phases ls') = length (lv_phases ls)"
  by (erule level_stepE) simp

lemma apply_adds_append: "apply_adds (xs @ ys) b = apply_adds ys (apply_adds xs b)"
  by (simp add: apply_adds_def)

lemma level_run_invariant_step:
  assumes st: "level_step es ls ns ls'"
    and len: "length (lv_phases ls) = length es"
    and reach: "\<forall>i < length es. reachable True (exchange_stream (es ! i)) (lv_phases ls ! i)"
    and il: "interleaving (map phase_adds (lv_phases ls)) zs"
  shows "length (lv_phases ls') = length es \<and>
    (\<forall>i < length es. reachable True (exchange_stream (es ! i)) (lv_phases ls' ! i)) \<and>
    interleaving (map phase_adds (lv_phases ls')) (zs @ ns) \<and>
    lv_bar ls' = apply_adds ns (lv_bar ls)"
  using st
proof cases
  case (thread_step i c')
  let ?xss = "map phase_adds (lv_phases ls)"
  have adds: "phase_adds c' = phase_adds (lv_phases ls ! i) @ ns"
    using consumer_step_adds [OF thread_step(3)] thread_step(4) by simp
  have "map phase_adds ((lv_phases ls)[i := c']) = ?xss[i := ?xss ! i @ ns]"
    using thread_step(2) adds by (simp add: map_update)
  moreover have "interleaving (?xss[i := ?xss ! i @ ns]) (zs @ ns)"
    using interleaving_snoc_at [OF il] thread_step(2) by simp
  moreover have "\<forall>j < length es. reachable True (exchange_stream (es ! j)) ((lv_phases ls)[i := c'] ! j)"
    using reach thread_step(2,3) len by (auto simp: nth_list_update intro: reachable.reach_step)
  ultimately show ?thesis using thread_step(1) len by simp
qed

lemma level_run_invariant:
  "level_run es (level_init es b) zs ls \<Longrightarrow>
   length (lv_phases ls) = length es \<and>
   (\<forall>i < length es. reachable True (exchange_stream (es ! i)) (lv_phases ls ! i)) \<and>
   interleaving (map phase_adds (lv_phases ls)) zs \<and>
   lv_bar ls = apply_adds zs b"
proof (induction "level_init es b" zs ls rule: level_run.induct)
  case run_nil
  then show ?case
    by (simp add: level_init_def apply_adds_def interleaving_replicate_Nil reachable.reach_start)
next
  case (run_snoc zs ls' ns ls'')
  then show ?case using level_run_invariant_step [of es ls' ns ls'' zs]
    by (simp add: apply_adds_append)
qed

lemma phase_outcome_adds: "phase_outcome c \<noteq> None \<Longrightarrow> phase_adds c = snd (the (phase_outcome c))"
  by (cases c) (simp_all add: phase_outcome_def)

lemma level_finished_outcomes:
  assumes run: "level_run es (level_init es b) zs ls" and fin: "level_finished ls"
  shows "map phase_outcome (lv_phases ls) = map (Some \<circ> run_exchange) es"
proof (rule nth_equalityI)
  from level_run_invariant [OF run] have len: "length (lv_phases ls) = length es"
    and reach: "\<forall>i < length es. reachable True (exchange_stream (es ! i)) (lv_phases ls ! i)"
    by simp_all
  then show "length (map phase_outcome (lv_phases ls)) = length (map (Some \<circ> run_exchange) es)"
    by simp
  fix i
  assume "i < length (map phase_outcome (lv_phases ls))"
  with len have i: "i < length es" by simp
  with fin len have "phase_outcome (lv_phases ls ! i) \<noteq> None"
    by (simp add: level_finished_def list_all_length)
  from reachable_outcome [OF reach [rule_format, OF i] _ this, of "ex_server (es ! i)"]
  show "map phase_outcome (lv_phases ls) ! i = map (Some \<circ> run_exchange) es ! i"
    using i len by (simp add: exchange_stream_def run_exchange_def)
qed

lemma level_finished_adds:
  "level_run es (level_init es b) zs ls \<Longrightarrow> level_finished ls \<Longrightarrow>
   map phase_adds (lv_phases ls) = map (snd \<circ> run_exchange) es"
proof -
  assume run: "level_run es (level_init es b) zs ls" and fin: "level_finished ls"
  have "map phase_adds (lv_phases ls) = map (\<lambda>c. snd (the (phase_outcome c))) (lv_phases ls)"
    using fin by (simp add: level_finished_def list_all_iff phase_outcome_adds)
  also have "\<dots> = map (\<lambda>x. snd (the x)) (map phase_outcome (lv_phases ls))" by simp
  also have "\<dots> = map (snd \<circ> run_exchange) es"
    by (simp only: level_finished_outcomes [OF run fin]) simp
  finally show ?thesis .
qed

section \<open>Schedules\<close>

lemma consumer_run_adds:
  "(consumer_step hb s ^^ n) c c' \<Longrightarrow> phase_adds c' = phase_adds c @ drop (length (phase_adds c)) (phase_adds c')"
proof (induction n arbitrary: c')
  case 0
  then show ?case by simp
next
  case (Suc n)
  then obtain c'' where r: "(consumer_step hb s ^^ n) c c''" and st: "consumer_step hb s c'' c'"
    by auto
  from Suc.IH [OF r] consumer_step_adds [OF st] show ?case
    by (metis append.assoc append_eq_conv_conj)
qed

lemma level_run_append:
  "level_run es l2 ys l3 \<Longrightarrow> level_run es l1 xs l2 \<Longrightarrow> level_run es l1 (xs @ ys) l3"
proof (induction rule: level_run.induct)
  case (run_nil ls)
  then show ?case by simp
next
  case (run_snoc ls zs ls' ns ls'')
  then show ?case using level_run.run_snoc [of es l1 "xs @ zs" ls' ns ls''] by simp
qed

text \<open>A run of one exchange, the others waiting, is a run of the level.\<close>

lemma level_run_thread:
  "(consumer_step True (exchange_stream (es ! i)) ^^ n) (lv_phases ls ! i) c' \<Longrightarrow>
   i < length (lv_phases ls) \<Longrightarrow>
   level_run es ls (drop (length (phase_adds (lv_phases ls ! i))) (phase_adds c'))
     \<lparr>lv_phases = (lv_phases ls)[i := c'],
      lv_bar = apply_adds (drop (length (phase_adds (lv_phases ls ! i))) (phase_adds c')) (lv_bar ls)\<rparr>"
proof (induction n arbitrary: c')
  case 0
  then have "c' = lv_phases ls ! i" by simp
  then show ?case by (cases ls) (simp add: level_run.run_nil apply_adds_def)
next
  case (Suc n)
  let ?c = "lv_phases ls ! i"
  from Suc.prems obtain c'' where r: "(consumer_step True (exchange_stream (es ! i)) ^^ n) ?c c''"
    and st: "consumer_step True (exchange_stream (es ! i)) c'' c'" by auto
  let ?xs = "drop (length (phase_adds ?c)) (phase_adds c'')"
  let ?ys = "drop (length (phase_adds c'')) (phase_adds c')"
  let ?l = "\<lparr>lv_phases = (lv_phases ls)[i := c''], lv_bar = apply_adds ?xs (lv_bar ls)\<rparr>"
  have "level_step es ?l ?ys \<lparr>lv_phases = (lv_phases ?l)[i := c'], lv_bar = apply_adds ?ys (lv_bar ?l)\<rparr>"
    using Suc.prems(2) st by (intro level_step.thread_step) simp_all
  with Suc.IH [OF r Suc.prems(2)] have "level_run es ls (?xs @ ?ys)
      \<lparr>lv_phases = (lv_phases ls)[i := c'], lv_bar = apply_adds ?ys (apply_adds ?xs (lv_bar ls))\<rparr>"
    by (simp add: level_run.run_snoc)
  moreover have "?xs @ ?ys = drop (length (phase_adds ?c)) (phase_adds c')"
    using consumer_run_adds [OF r] consumer_step_adds [OF st]
    by (metis append.assoc append_eq_conv_conj)
  ultimately show ?case by (simp add: apply_adds_append [symmetric])
qed

text \<open>The complete run of one exchange, from \<open>Start\<close> to its terminal phase.\<close>

lemma consumer_complete_run:
  "(consumer_step hb s ^^ (length (events s) + 2)) Start
     (case stream_err s of
        None \<Rightarrow> Finalized (finalize_usage hb (stream_loop hb init_consumer (events s)))
      | Some e \<Rightarrow> Failed e (bar_adds (stream_loop hb init_consumer (events s))))"
proof -
  let ?st = "stream_loop hb init_consumer (events s)"
  have run: "(consumer_step hb s ^^ Suc (length (events s))) Start (Streaming ?st [])"
    by (rule relpowp_Suc_I2 [OF consumer_step.start streaming_run])
  show ?thesis
  proof (cases "stream_err s")
    case None
    then have "consumer_step hb s (Streaming ?st []) (Finalized (finalize_usage hb ?st))"
      by (rule consumer_step.stream_done)
    with run None show ?thesis by (simp del: relpowp.simps add: relpowp_Suc_I)
  next
    case (Some e)
    then have "consumer_step hb s (Streaming ?st []) (Failed e (bar_adds ?st))"
      by (rule consumer_step.stream_failed)
    with run Some show ?thesis by (simp del: relpowp.simps add: relpowp_Suc_I)
  qed
qed

lemma run_exchange_success:
  "well_behaved e \<Longrightarrow> \<exists>m. fst (run_exchange e) = Inr m \<and> sum_list (snd (run_exchange e)) = rm_completionTokens m"
proof -
  assume wb: "well_behaved e"
  let ?s = "exchange_stream e"
  let ?st = "stream_loop True init_consumer (events ?s)"
  from wb have err: "stream_err ?s = None"
    and pos: "\<forall>te \<in> set (events ?s). 0 \<le> usage_completion_tokens (snd te)"
    by (simp_all add: well_behaved_def list_all_iff)
  have nonneg: "0 \<le> completionTokens ?st"
    using pos spec_usage_Some_in [of "events ?s"] by (auto simp: run_simps split: option.split)
  have est: "sum_list (bar_adds ?st) = estimatedTokens ?st"
    by (simp add: run_simps spec_estimate_def)
  have "run_exchange e = (Inr (metrics_of (finalize_usage True ?st)), bar_adds (finalize_usage True ?st))"
    using err by (simp add: run_exchange_def askOpenAi_None_err exchange_stream_def Let_def)
  with finalize_usage_adds_sum [OF nonneg] est show ?thesis
    by (simp add: metrics_of_def)
qed

lemma well_behaved_runs:
  "list_all well_behaved es \<Longrightarrow>
   \<exists>ms. map (fst \<circ> run_exchange) es = map Inr ms \<and>
        map (sum_list \<circ> snd \<circ> run_exchange) es = map rm_completionTokens ms"
proof (induction es)
  case Nil
  then show ?case by simp
next
  case (Cons e es)
  from Cons.prems have "list_all well_behaved es" by simp
  then obtain ms where "map (fst \<circ> run_exchange) es = map Inr ms"
    "map (sum_list \<circ> snd \<circ> run_exchange) es = map rm_completionTokens ms"
    using Cons.IH by blast
  moreover obtain m where "fst (run_exchange e) = Inr m" "sum_list (snd (run_exchange e)) = rm_completionTokens m"
    using run_exchange_success Cons.prems by auto
  ultimately show ?case by (intro exI [of _ "m # ms"]) (simp add: comp_def)
qed

text \<open>The complete run of exchange \<open>i\<close> while the others wait.\<close>

lemma level_run_exchange:
  assumes i: "i < length (lv_phases ls)" and st: "lv_phases ls ! i = Start"
  shows "level_run es ls (snd (run_exchange (es ! i)))
     \<lparr>lv_phases = (lv_phases ls)[i :=
        (case stream_err (exchange_stream (es ! i)) of
           None \<Rightarrow> Finalized (finalize_usage True (stream_loop True init_consumer (events (exchange_stream (es ! i)))))
         | Some e \<Rightarrow> Failed e (bar_adds (stream_loop True init_consumer (events (exchange_stream (es ! i))))))],
      lv_bar = apply_adds (snd (run_exchange (es ! i))) (lv_bar ls)\<rparr>"
proof -
  let ?s = "exchange_stream (es ! i)"
  have "snd (run_exchange (es ! i)) =
      phase_adds (case stream_err ?s of
           None \<Rightarrow> Finalized (finalize_usage True (stream_loop True init_consumer (events ?s)))
         | Some e \<Rightarrow> Failed e (bar_adds (stream_loop True init_consumer (events ?s))))"
    by (cases "stream_err ?s")
      (simp_all add: run_exchange_def exchange_stream_def askOpenAi_None_err askOpenAi_Some_err Let_def)
  with level_run_thread [OF consumer_complete_run [unfolded st [symmetric]] i] st show ?thesis
    by simp
qed

lemma level_run_ex_level:
  "level_run ex_level (level_init ex_level \<lparr>current = 0\<rparr>) [1, 1, 1]
     \<lparr>lv_phases = [Finalized (finalize_usage True (stream_loop True init_consumer (events ex_hello_world))),
                  Start],
      lv_bar = \<lparr>current = 3\<rparr>\<rparr>"
  using level_run_exchange [of 0 "level_init ex_level \<lparr>current = 0\<rparr>" ex_level]
  by (simp add: model_defs)

lemma level_run_ex_level_done:
  "level_run ex_level (level_init ex_level \<lparr>current = 0\<rparr>) [1, 1, 1, 3, 1]
     \<lparr>lv_phases = [Finalized (finalize_usage True (stream_loop True init_consumer (events ex_hello_world))),
                  Finalized (finalize_usage True (stream_loop True init_consumer (events ex_no_usage)))],
      lv_bar = \<lparr>current = 7\<rparr>\<rparr>"
  using level_run_append [OF level_run_exchange [of 1 "\<lparr>lv_phases =
      [Finalized (finalize_usage True (stream_loop True init_consumer (events ex_hello_world))), Start],
      lv_bar = \<lparr>current = 3\<rparr>\<rparr>" ex_level] level_run_ex_level]
  by (simp add: model_defs)

section \<open>What the bar shows\<close>

lemma stream_loop_completion_nonneg:
  "\<forall>te \<in> set tes. 0 \<le> usage_completion_tokens (snd te) \<Longrightarrow>
   0 \<le> completionTokens (stream_loop hb init_consumer tes)"
  using spec_usage_Some_in [of tes] by (auto simp: run_simps split: option.split)

lemma reachable_shown_progress:
  assumes r: "reachable True s c"
    and pos: "\<forall>te \<in> set (events s). 0 \<le> usage_completion_tokens (snd te)"
  shows "sum_list (phase_adds c) = shown_progress c"
  using r
proof cases
  case reach_start
  then show ?thesis by simp
next
  case (reach_step c0)
  from reach_step(2) show ?thesis
  proof cases
    case start
    then show ?thesis by simp
  next
    case (next_event st te tes)
    with reach_step(1) reachable_streaming_prefix [of True s c0] obtain pre where
      "st = stream_loop True init_consumer pre" by auto
    with next_event show ?thesis
      by (simp add: stream_loop_snoc [symmetric] run_simps spec_estimate_def)
  next
    case (stream_failed err st)
    then show ?thesis by simp
  next
    case (stream_done st)
    with reach_step(1) reachable_streaming_prefix [of True s c0]
    have st: "st = stream_loop True init_consumer (events s)" by auto
    have "0 \<le> completionTokens st" using stream_loop_completion_nonneg [OF pos] st by simp
    from finalize_usage_adds_sum [OF this] stream_done st show ?thesis
      by (simp add: run_simps spec_estimate_def)
  qed
qed

section \<open>Properties\<close>

text \<open>
  C16. Whatever the schedule of a concurrency level, once every exchange has
  ended, each has the outcome \<open>AskOpenAi\<close> returns when run alone; the calls on
  the shared bar are an interleaving of the exchanges' own sequences of calls,
  each kept in its order, so no increment is lost and the bar has advanced by
  the sum of all of them, failed exchanges included; and when every exchange
  succeeds with non-negative usage counts, that sum is the sum of the completion
  counts they return.
\<close>

theorem level_progress_total:
  "level_run es (level_init es b) zs ls \<Longrightarrow> level_finished ls \<Longrightarrow>
   map phase_outcome (lv_phases ls) = map (Some \<circ> run_exchange) es \<and>
   interleaving (map (snd \<circ> run_exchange) es) zs \<and>
   current (lv_bar ls) = current b + sum_list (map (sum_list \<circ> snd \<circ> run_exchange) es) \<and>
   (list_all well_behaved es \<longrightarrow>
      (\<exists>ms. map (fst \<circ> run_exchange) es = map Inr ms \<and>
            current (lv_bar ls) = current b + sum_list (map rm_completionTokens ms)))"
proof -
  assume run: "level_run es (level_init es b) zs ls" and fin: "level_finished ls"
  from level_run_invariant [OF run] have il: "interleaving (map phase_adds (lv_phases ls)) zs"
    and bar: "lv_bar ls = apply_adds zs b" by simp_all
  from il have il': "interleaving (map (snd \<circ> run_exchange) es) zs"
    by (simp only: level_finished_adds [OF run fin])
  have tot: "current (lv_bar ls) = current b + sum_list (map (sum_list \<circ> snd \<circ> run_exchange) es)"
    using interleaving_sum_list [OF il'] by (simp add: bar current_apply_adds comp_assoc)
  show ?thesis
  proof (intro conjI impI)
    show "map phase_outcome (lv_phases ls) = map (Some \<circ> run_exchange) es"
      by (rule level_finished_outcomes [OF run fin])
    show "interleaving (map (snd \<circ> run_exchange) es) zs" by (rule il')
    show "current (lv_bar ls) = current b + sum_list (map (sum_list \<circ> snd \<circ> run_exchange) es)"
      by (rule tot)
    assume "list_all well_behaved es"
    then obtain ms where "map (fst \<circ> run_exchange) es = map Inr ms"
      and "map (sum_list \<circ> snd \<circ> run_exchange) es = map rm_completionTokens ms"
      using well_behaved_runs by blast
    with tot show "\<exists>ms. map (fst \<circ> run_exchange) es = map Inr ms \<and>
        current (lv_bar ls) = current b + sum_list (map rm_completionTokens ms)"
      by auto
  qed
qed

theorem level_progress_total_witness:
  "level_run ex_level (level_init ex_level \<lparr>current = 0\<rparr>) [1, 1, 1, 3, 1]
     \<lparr>lv_phases = [Finalized (finalize_usage True (stream_loop True init_consumer (events ex_hello_world))),
                  Finalized (finalize_usage True (stream_loop True init_consumer (events ex_no_usage)))],
      lv_bar = \<lparr>current = 7\<rparr>\<rparr> \<and>
   list_all well_behaved ex_level \<and>
   map (fst \<circ> run_exchange) ex_level =
     map Inr [\<lparr>rm_content = ''Hello world'', rm_timeToFirstToken = 0.25, rm_completionTokens = 3,
               rm_promptTokens = 5\<rparr>,
              \<lparr>rm_content = ''one two three four'', rm_timeToFirstToken = 0.1, rm_completionTokens = 4,
               rm_promptTokens = 0\<rparr>] \<and>
   (7::int) = 0 + (3 + 4)"
proof -
  have fin: "level_finished
     \<lparr>lv_phases = [Finalized (finalize_usage True (stream_loop True init_consumer (events ex_hello_world))),
                  Finalized (finalize_usage True (stream_loop True init_consumer (events ex_no_usage)))],
      lv_bar = \<lparr>current = 7\<rparr>\<rparr>"
    by (simp add: level_finished_def phase_outcome_def)
  have wb: "list_all well_behaved ex_level" by (simp add: model_defs)
  from level_progress_total [OF level_run_ex_level_done fin] wb level_run_ex_level_done
  show ?thesis by (simp add: model_defs)
qed

text \<open>
  C17. The invariant of the shared bar over every state a level reaches, for
  servers that never report a negative completion count: each exchange's calls
  on the bar add up to what the bar should show for it, its running estimate
  while it streams and its final completion count once it has finished, and the
  bar shows the sum of these over the exchanges, whatever the schedule. It
  rests on the reconciliation of lines 85--94 and on the bar receiving every call
  of every exchange.
\<close>

theorem level_bar_shows_progress:
  "level_run es (level_init es b) zs ls \<Longrightarrow>
   \<forall>e \<in> set es. \<forall>te \<in> set (events (exchange_stream e)). 0 \<le> usage_completion_tokens (snd te) \<Longrightarrow>
   (\<forall>i < length es. sum_list (phase_adds (lv_phases ls ! i)) = shown_progress (lv_phases ls ! i)) \<and>
   current (lv_bar ls) = current b + sum_list (map shown_progress (lv_phases ls))"
proof -
  assume run: "level_run es (level_init es b) zs ls"
    and pos: "\<forall>e \<in> set es. \<forall>te \<in> set (events (exchange_stream e)). 0 \<le> usage_completion_tokens (snd te)"
  from level_run_invariant [OF run] have len: "length (lv_phases ls) = length es"
    and reach: "\<forall>i < length es. reachable True (exchange_stream (es ! i)) (lv_phases ls ! i)"
    and il: "interleaving (map phase_adds (lv_phases ls)) zs"
    and bar: "lv_bar ls = apply_adds zs b" by simp_all
  have each: "\<forall>i < length es. sum_list (phase_adds (lv_phases ls ! i)) = shown_progress (lv_phases ls ! i)"
  proof (intro allI impI)
    fix i
    assume i: "i < length es"
    then have "es ! i \<in> set es" by simp
    with pos have "\<forall>te \<in> set (events (exchange_stream (es ! i))). 0 \<le> usage_completion_tokens (snd te)"
      by blast
    from reachable_shown_progress [OF reach [rule_format, OF i] this]
    show "sum_list (phase_adds (lv_phases ls ! i)) = shown_progress (lv_phases ls ! i)" .
  qed
  then have "map (sum_list \<circ> phase_adds) (lv_phases ls) = map shown_progress (lv_phases ls)"
    using len by (simp add: list_eq_iff_nth_eq)
  with interleaving_sum_list [OF il] have "current (lv_bar ls) = current b + sum_list (map shown_progress (lv_phases ls))"
    by (simp add: bar current_apply_adds)
  with each show ?thesis by simp
qed

theorem level_bar_shows_progress_witness:
  "level_run ex_level (level_init ex_level \<lparr>current = 0\<rparr>) [1, 1, 1]
     \<lparr>lv_phases = [Finalized (finalize_usage True (stream_loop True init_consumer (events ex_hello_world))),
                  Start],
      lv_bar = \<lparr>current = 3\<rparr>\<rparr> \<and>
   list_all (\<lambda>e. list_all (\<lambda>te. 0 \<le> usage_completion_tokens (snd te)) (events (exchange_stream e)))
     ex_level \<and>
   (3::int) = 0 + (3 + 0)"
proof -
  have pos: "\<forall>e \<in> set ex_level. \<forall>te \<in> set (events (exchange_stream e)). 0 \<le> usage_completion_tokens (snd te)"
    by (simp add: model_defs)
  from level_bar_shows_progress [OF level_run_ex_level pos] level_run_ex_level pos
  show ?thesis by (simp add: model_defs)
qed

end
