(* ===== verification/GoFmt.thy ===== *)
theory GoFmt
  imports GoStrings Float64
begin

text \<open>
  The parts of Go's \<open>fmt\<close> and \<open>strconv\<close> that the reports use: \<open>%d\<close> on an
  \<open>int\<close>, \<open>time\<close>'s zero-padded \<open>appendInt\<close>, a field width (\<open>fmt.pad\<close>: spaces
  on the left up to the width), and \<open>%.2f\<close> on a \<open>float64\<close>
  (\<open>fmt.fmtFloat\<close> over \<open>strconv.AppendFloat(x, 'f', 2, 64)\<close>). For \<open>%.2f\<close>
  strconv takes the exact decimal expansion of the double and rounds it to two
  decimals with \<open>decimal.Round\<close>, which rounds half to even; the sign is
  printed for every negative value, zero included, and the infinities and NaN
  print as \<open>+Inf\<close>, \<open>-Inf\<close> and \<open>NaN\<close>. The reader \<open>parse_nat\<close> is not
  code of the program: it reads printed digits back, for the JSON reader of
  \<open>GoJson\<close>. The lemma \<open>f64_hundredths_error\<close> says that the hundredths
  \<open>%.2f\<close> prints are the double's value to within half a hundredth.
\<close>

section \<open>Definitions\<close>

text \<open>
  Decimal digits of a natural number, most significant first; digit \<open>d\<close> is the
  character \<open>'0' + d\<close>.
\<close>

definition digit_chars :: string where
  "digit_chars = ''0123456789''"

fun nat_digits :: "nat \<Rightarrow> string" where
  "nat_digits n =
     (if n < 10 then [digit_chars ! n]
      else nat_digits (n div 10) @ [digit_chars ! (n mod 10)])"

declare nat_digits.simps [simp del]

text \<open>\<open>fmt\<close>'s \<open>%d\<close> on an \<open>int\<close>.\<close>

definition fmt_d :: "go_int \<Rightarrow> string" where
  "fmt_d i = (if i < 0 then CHR ''-'' # nat_digits (nat (- i)) else nat_digits (nat i))"

text \<open>\<open>time.appendInt(b, x, width)\<close>: sign, zero padding to \<open>width\<close>, digits.\<close>

definition append_int :: "int \<Rightarrow> nat \<Rightarrow> string" where
  "append_int x width =
     (let ds = nat_digits (nat \<bar>x\<bar>)
      in (if x < 0 then ''-'' else []) @ replicate (width - length ds) (CHR ''0'') @ ds)"

text \<open>A field width: \<open>fmt.pad\<close> writes spaces before a shorter string.\<close>

definition pad_left :: "nat \<Rightarrow> string \<Rightarrow> string" where
  "pad_left w s = replicate (w - length s) (CHR '' '') @ s"

text \<open>
  The magnitude of a finite double in hundredths, rounded half to even: the
  digits \<open>strconv\<close> keeps for precision 2.
\<close>

definition f64_hundredths :: "f64 \<Rightarrow> nat" where
  "f64_hundredths x =
     (let N = 100 * f64_sig x; e = f64_scale x
      in if 0 \<le> e then N * 2 ^ nat e else round_shift N (nat (- e)))"

definition fixed2 :: "nat \<Rightarrow> string" where
  "fixed2 n = nat_digits (n div 100) @ CHR ''.'' #
     [digit_chars ! (n mod 100 div 10), digit_chars ! (n mod 10)]"

text \<open>\<open>%.2f\<close>.\<close>

definition fmt_f2 :: "f64 \<Rightarrow> string" where
  "fmt_f2 x =
     (if f64_is_nan x then ''NaN''
      else if f64_is_inf x then (if f64_sign x then ''-Inf'' else ''+Inf'')
      else (if f64_sign x then ''-'' else []) @ fixed2 (f64_hundredths x))"

subsection \<open>Reading a printed number back\<close>

definition digit_val :: "char \<Rightarrow> nat option" where
  "digit_val c = (let k = of_char c in if 48 \<le> k \<and> k < (58::nat) then Some (k - 48) else None)"

text \<open>The value of a digit string given least significant digit first.\<close>

fun dec_val_rev :: "string \<Rightarrow> nat option" where
  "dec_val_rev [] = Some 0"
| "dec_val_rev (c # cs) =
     (case (digit_val c, dec_val_rev cs) of
        (Some d, Some v) \<Rightarrow> Some (d + 10 * v)
      | _ \<Rightarrow> None)"

definition parse_nat :: "string \<Rightarrow> nat option" where
  "parse_nat s = (if s = [] then None else dec_val_rev (rev s))"

declare digit_chars_def [model_defs] fmt_d_def [model_defs] append_int_def [model_defs]
  nat_digits.simps [model_defs] pad_left_def [model_defs] f64_hundredths_def [model_defs]
  fixed2_def [model_defs] fmt_f2_def [model_defs]

section \<open>Lemmas\<close>

lemma nat_digits_chars: "set (nat_digits n) \<subseteq> set digit_chars"
proof (induction n rule: nat_digits.induct)
  case (1 n)
  have len: "length digit_chars = 10" by (simp add: digit_chars_def)
  show ?case
  proof (cases "n < 10")
    case True
    with len show ?thesis by (subst nat_digits.simps) simp
  next
    case False
    with 1 len show ?thesis by (subst nat_digits.simps) simp
  qed
qed

lemma zero_in_digit_chars: "CHR ''0'' \<in> set digit_chars"
  by (simp add: digit_chars_def)

lemma fmt_d_chars: "set (fmt_d i) \<subseteq> insert (CHR ''-'') (set digit_chars)"
  using nat_digits_chars by (auto simp: fmt_d_def)

lemma append_int_chars: "set (append_int x w) \<subseteq> insert (CHR ''-'') (set digit_chars)"
  using nat_digits_chars zero_in_digit_chars by (auto simp: append_int_def Let_def)


lemma length_digit_chars [simp]: "length digit_chars = 10"
  by (simp add: digit_chars_def)

lemma digit_val_digit: "d < 10 \<Longrightarrow> digit_val (digit_chars ! d) = Some d"
  by (auto simp: less_Suc_eq numeral_eq_Suc digit_chars_def digit_val_def)

lemma nat_digits_step:
  "10 \<le> n \<Longrightarrow> nat_digits n = nat_digits (n div 10) @ [digit_chars ! (n mod 10)]"
  by (subst nat_digits.simps) simp

lemma nat_digits_small: "n < 10 \<Longrightarrow> nat_digits n = [digit_chars ! n]"
  by (subst nat_digits.simps) simp

lemma dec_val_rev_nat_digits: "dec_val_rev (rev (nat_digits n)) = Some n"
proof (induction n rule: nat_digits.induct)
  case (1 n)
  show ?case
  proof (cases "n < 10")
    case True
    then show ?thesis by (simp add: nat_digits_small digit_val_digit)
  next
    case False
    then have "dec_val_rev (rev (nat_digits n)) = Some (n mod 10 + 10 * (n div 10))"
      using 1 by (simp add: nat_digits_step digit_val_digit)
    then show ?thesis by simp
  qed
qed

lemma nat_digits_not_nil [simp]: "nat_digits n \<noteq> []"
  by (cases "n < 10") (simp_all add: nat_digits_small nat_digits_step)

lemma parse_nat_nat_digits [simp]: "parse_nat (nat_digits n) = Some n"
  by (simp add: parse_nat_def dec_val_rev_nat_digits)

lemma f64_hundredths_error:
  "\<bar>real (f64_hundredths x) - 100 * real (f64_sig x) * 2 powi f64_scale x\<bar> \<le> 1 / 2"
proof (cases "0 \<le> f64_scale x")
  case True
  then have "(2::real) powi f64_scale x = 2 ^ nat (f64_scale x)"
    by (simp add: power_int_def)
  with True show ?thesis by (simp add: f64_hundredths_def)
next
  case False
  let ?s = "nat (- f64_scale x)"
  let ?N = "100 * f64_sig x"
  let ?R = "round_shift ?N ?s"
  have p: "(2::real) powi f64_scale x = 1 / 2 ^ ?s"
    using False by (simp add: power_int_def power_one_over)
  from round_shift_bounds [of ?N ?s]
  have a: "2 * (?R * 2 ^ ?s) \<le> 2 * ?N + 2 ^ ?s" and b: "2 * ?N \<le> 2 * (?R * 2 ^ ?s) + 2 ^ ?s"
    by auto
  have "real (2 * (?R * 2 ^ ?s)) \<le> real (2 * ?N + 2 ^ ?s)" using a by (simp only: of_nat_le_iff)
  then have a': "2 * (real ?R * 2 ^ ?s) \<le> 2 * real ?N + 2 ^ ?s" by simp
  have "real (2 * ?N) \<le> real (2 * (?R * 2 ^ ?s) + 2 ^ ?s)" using b by (simp only: of_nat_le_iff)
  then have b': "2 * real ?N \<le> 2 * (real ?R * 2 ^ ?s) + 2 ^ ?s" by simp
  have "\<bar>real ?R - real ?N / 2 ^ ?s\<bar> \<le> 1 / 2"
    by (rule abs_sub_div_le_half [OF a' b']) simp
  with False p show ?thesis by (simp add: f64_hundredths_def)
qed


lemma set_fixed2: "set (fixed2 n) \<subseteq> insert (CHR ''.'') (set digit_chars)"
proof -
  have "n mod 100 div 10 < 10" "n mod 10 < 10" by simp_all
  then have "digit_chars ! (n mod 100 div 10) \<in> set digit_chars"
            "digit_chars ! (n mod 10) \<in> set digit_chars"
    by (simp_all add: nth_mem)
  with nat_digits_chars [of "n div 100"] show ?thesis by (auto simp: fixed2_def)
qed

lemma set_fmt_f2:
  "set (fmt_f2 x) \<subseteq> set ''+-.NaInf'' \<union> set digit_chars"
  using set_fixed2 [of "f64_hundredths x"] by (auto simp: fmt_f2_def)

lemma length_pad_left: "length s \<le> w \<Longrightarrow> length (pad_left w s) = w"
  by (simp add: pad_left_def)

lemma map_pad_left:
  "length s \<le> w \<Longrightarrow> \<not> (\<exists>c\<in>set s. P c) \<Longrightarrow> \<not> P (CHR '' '') \<Longrightarrow>
   map P (pad_left w s) = replicate w False"
  by (simp add: pad_left_def map_replicate_const list_eq_iff_nth_eq nth_append)


lemma f64_finite_not_special: "f64_is_finite x \<Longrightarrow> \<not> f64_is_nan x \<and> \<not> f64_is_inf x"
  by (simp add: f64_is_finite_def f64_is_nan_def f64_is_inf_def)

end
