(* ===== verification/GoJson.thy ===== *)
theory GoJson
  imports GoFmt "HOL-Library.List_Lexorder"
begin

text \<open>
  The part of Go's \<open>encoding/json\<close> that \<open>SaveModelOutputs\<close> uses
  (\<^verbatim>\<open>src/internal/utils/output.go\<close>, line 104):
  \<open>json.MarshalIndent(v, "", "  ")\<close> on a \<open>map[string]interface{}\<close> of strings,
  \<open>int\<close>s and a \<open>[]string\<close> (the \<open>time.Time\<close> it also holds is written by its
  own \<open>MarshalJSON\<close>, in \<open>Reporter\<close>), as the Go 1.22 encoder writes it.
  \<open>json_str_body\<close> is \<open>appendString\<close> with HTML escaping on: the bytes of
  \<open>htmlSafeSet\<close> are copied, \<open>"\<close> and the backslash are escaped, and so are
  the control bytes (five of them by a letter, the others and \<open><\<close>, \<open>>\<close>,
  \<open>&\<close> as \<open>\u00XX\<close>); a rune above 0x7F is copied, except that an invalid byte
  is written as the escape of U+FFFD and U+2028 and U+2029 are escaped.
  \<open>json_marshal\<close> is \<open>Marshal\<close>, which sorts a map's keys bytewise, and
  \<open>json_indent_loop\<close> is \<open>appendIndent\<close>, byte by byte, with the part of the
  scanner's state that matters on \<open>Marshal\<close>'s output (inside a string
  literal or not, after a backslash or not).
  The lemmas show that \<open>appendIndent\<close> of \<open>Marshal\<close>'s output is the documented
  layout \<open>json_layout\<close> (\<open>json_marshal_indent_layout\<close>), and that the text
  reads back (\<open>json_read_marshal_indent\<close>): every value comes back, each
  string as \<open>utf8_sanitize\<close> of itself, which is the string itself when it is
  valid UTF-8 (\<open>utf8_sanitize_valid\<close>), and a map's entries in sorted order.
\<close>

section \<open>Definitions\<close>

subsection \<open>String literals\<close>

definition dquote :: char where
  "dquote = CHR 0x22"

definition backslash :: char where
  "backslash = CHR 0x5C"

definition hex_chars :: string where
  "hex_chars = ''0123456789abcdef''"

text \<open>\<open>htmlSafeSet\<close>: the ASCII bytes \<open>appendString\<close> copies when HTML escaping is on.\<close>

definition html_safe :: "char \<Rightarrow> bool" where
  "html_safe c \<longleftrightarrow>
     32 \<le> byte c \<and> byte c < 128 \<and> c \<noteq> dquote \<and> c \<noteq> backslash \<and>
     c \<noteq> CHR ''<'' \<and> c \<noteq> CHR ''>'' \<and> c \<noteq> CHR ''&''"

text \<open>The bytes \<open>appendString\<close> writes for one byte below \<open>utf8.RuneSelf\<close>.\<close>

definition json_escape_ascii :: "char \<Rightarrow> string" where
  "json_escape_ascii c =
     (if html_safe c then [c]
      else if c = backslash \<or> c = dquote then [backslash, c]
      else if c = CHR 0x08 then [backslash, CHR ''b'']
      else if c = CHR 0x0C then [backslash, CHR ''f'']
      else if c = CHR 0x0A then [backslash, CHR ''n'']
      else if c = CHR 0x0D then [backslash, CHR ''r'']
      else if c = CHR 0x09 then [backslash, CHR ''t'']
      else [backslash, CHR ''u'', CHR ''0'', CHR ''0'',
            hex_chars ! (byte c div 16), hex_chars ! (byte c mod 16)])"

text \<open>
  The loop of \<open>appendString\<close>, one byte below 0x80 or one rune at a time: the
  rune is decoded from at most \<open>utf8.UTFMax\<close> bytes; an invalid byte becomes
  the escape of U+FFFD, U+2028 and U+2029 are escaped, any other rune is copied.
\<close>

function json_str_body :: "string \<Rightarrow> string" where
  "json_str_body [] = []"
| "json_str_body (c # cs) =
     (if byte c < 128 then json_escape_ascii c @ json_str_body cs
      else (if decode_rune (take 4 (c # cs)) = (rune_error, 1)
            then backslash # ''ufffd''
            else if fst (decode_rune (take 4 (c # cs))) = 8232 \<or>
                    fst (decode_rune (take 4 (c # cs))) = 8233
            then backslash # ''u202'' @ [hex_chars ! (fst (decode_rune (take 4 (c # cs))) mod 16)]
            else take (snd (decode_rune (take 4 (c # cs)))) (c # cs))
           @ json_str_body (drop (snd (decode_rune (take 4 (c # cs)))) (c # cs)))"
  by pat_completeness auto
termination
proof (relation "measure length")
  fix c cs
  have "1 \<le> snd (decode_rune (take 4 (c # cs)))"
    using decode_rune_width [of "take 4 (c # cs)"] by simp
  then show "(drop (snd (decode_rune (take 4 (c # cs)))) (c # cs), c # cs) \<in> measure length"
    by simp
qed auto

definition json_quote :: "string \<Rightarrow> string" where
  "json_quote s = dquote # json_str_body s @ [dquote]"

subsection \<open>Values and \<open>json.Marshal\<close>\<close>

text \<open>
  The values the archive holds: an \<open>int\<close>, a \<open>string\<close>, a slice, and a
  \<open>map[string]interface{}\<close> (its entries in any order).
\<close>

datatype jvalue = JInt int | JStr string | JArr "jvalue list" | JMap "(string \<times> jvalue) list"

text \<open>Elements written with a separator before each but the first.\<close>

definition sep_join :: "string \<Rightarrow> string list \<Rightarrow> string" where
  "sep_join sep xs = (case xs of [] \<Rightarrow> [] | y # ys \<Rightarrow> y @ concat (map (\<lambda>z. sep @ z) ys))"

text \<open>
  \<open>json.Marshal\<close>: \<open>intEncoder\<close> (\<open>strconv.AppendInt\<close>), \<open>stringEncoder\<close>,
  \<open>arrayEncoder\<close>, and \<open>mapEncoder\<close>, which sorts the keys bytewise.
\<close>

fun json_marshal :: "jvalue \<Rightarrow> string" where
  "json_marshal (JInt i) = fmt_d i"
| "json_marshal (JStr s) = json_quote s"
| "json_marshal (JArr vs) = CHR ''['' # sep_join '','' (map json_marshal vs) @ '']''"
| "json_marshal (JMap kvs) =
     CHR ''{'' #
     sep_join '','' (map (\<lambda>kv. json_quote (fst kv) @ CHR '':'' # json_marshal (snd kv))
                       (sort_key (\<lambda>kv. map byte (fst kv)) kvs)) @ ''}''"

subsection \<open>\<open>json.Indent\<close>\<close>

text \<open>
  The state of \<open>appendIndent\<close>: \<open>needIndent\<close>, \<open>depth\<close>, and the part of the
  scanner's state that classifies the bytes of valid input: whether the byte
  is inside a string literal and whether it follows a backslash there. Inside
  a literal every byte is \<open>scanContinue\<close>; outside, white space is
  \<open>scanSkipSpace\<close> and the punctuation bytes are the scanner's structural
  events.
\<close>

record indent_state =
  ind_need :: bool
  ind_depth :: int
  ind_str :: bool
  ind_esc :: bool

definition json_ws :: "char \<Rightarrow> bool" where
  "json_ws c \<longleftrightarrow> c = CHR '' '' \<or> c = CHR 0x09 \<or> c = CHR 0x0A \<or> c = CHR 0x0D"

text \<open>\<open>appendNewline(dst, "", "  ", depth)\<close>.\<close>

definition json_newline :: "int \<Rightarrow> string" where
  "json_newline d = CHR 0x0A # concat (replicate (nat d) ''  '')"

text \<open>One iteration of the loop of \<open>appendIndent\<close>: the bytes appended and the new state.\<close>

definition indent_step :: "indent_state \<Rightarrow> char \<Rightarrow> string \<times> indent_state" where
  "indent_step st c =
     (if \<not> ind_str st \<and> json_ws c then ([], st)
      else
        (let close = (\<not> ind_str st \<and> (c = CHR ''}'' \<or> c = CHR '']''));
             fire = (ind_need st \<and> \<not> close);
             pre = (if fire then json_newline (ind_depth st + 1) else []);
             st1 = (if fire then st\<lparr>ind_need := False, ind_depth := ind_depth st + 1\<rparr> else st)
         in if ind_str st
            then (pre @ [c], st1\<lparr>ind_str := (ind_esc st \<or> c \<noteq> dquote),
                                 ind_esc := (\<not> ind_esc st \<and> c = backslash)\<rparr>)
            else if c = CHR ''{'' \<or> c = CHR ''['' then (pre @ [c], st1\<lparr>ind_need := True\<rparr>)
            else if c = CHR '','' then (pre @ c # json_newline (ind_depth st1), st1)
            else if c = CHR '':'' then (pre @ [c, CHR '' ''], st1)
            else if close then
              (if ind_need st1 then (pre @ [c], st1\<lparr>ind_need := False\<rparr>)
               else (pre @ json_newline (ind_depth st1 - 1) @ [c],
                     st1\<lparr>ind_depth := ind_depth st1 - 1\<rparr>))
            else (pre @ [c], st1\<lparr>ind_str := (c = dquote), ind_esc := False\<rparr>)))"

fun json_indent_loop :: "indent_state \<Rightarrow> string \<Rightarrow> string" where
  "json_indent_loop st [] = []"
| "json_indent_loop st (c # cs) = fst (indent_step st c) @ json_indent_loop (snd (indent_step st c)) cs"

definition indent_at :: "int \<Rightarrow> indent_state" where
  "indent_at d = \<lparr>ind_need = False, ind_depth = d, ind_str = False, ind_esc = False\<rparr>"

text \<open>\<open>json.MarshalIndent(v, "", "  ")\<close>: \<open>Marshal\<close>, then \<open>appendIndent\<close> from depth 0.\<close>

definition json_marshal_indent :: "jvalue \<Rightarrow> string" where
  "json_marshal_indent v = json_indent_loop (indent_at 0) (json_marshal v)"

text \<open>
  The layout \<open>MarshalIndent\<close> is documented to produce, as a reference: each
  element of a non-empty array or object on a line of its own, indented by two
  spaces per level of nesting, and \<open>": "\<close> between a key and its value.
\<close>

fun json_layout :: "int \<Rightarrow> jvalue \<Rightarrow> string" where
  "json_layout d (JInt i) = fmt_d i"
| "json_layout d (JStr s) = json_quote s"
| "json_layout d (JArr vs) =
     (if vs = [] then ''[]''
      else CHR ''['' # json_newline (d + 1) @
           sep_join (CHR '','' # json_newline (d + 1)) (map (json_layout (d + 1)) vs) @
           json_newline d @ '']'')"
| "json_layout d (JMap kvs) =
     (if kvs = [] then ''{}''
      else CHR ''{'' # json_newline (d + 1) @
           sep_join (CHR '','' # json_newline (d + 1))
             (map (\<lambda>kv. json_quote (fst kv) @ '': '' @ json_layout (d + 1) (snd kv))
                  (sort_key (\<lambda>kv. map byte (fst kv)) kvs)) @
           json_newline d @ ''}'')"

subsection \<open>Reading the text back\<close>

text \<open>
  Not code of the program: what the archive says, read back. A string is read
  to its bytes, each escape to the bytes it stands for (a \<open>\u\<close> escape to the
  UTF-8 encoding of its code point); \<open>utf8_sanitize\<close> is what the encoder
  keeps of a string, every invalid byte replaced by the encoding of U+FFFD, and
  \<open>json_norm\<close> what it keeps of a value, the entries of a map in the order it
  writes them. The reader of values takes fuel, one unit per nested value and
  per element; \<open>json_read\<close> gives it the length of the text, which the lemmas
  show is enough.
\<close>

definition utf8_sanitize :: "string \<Rightarrow> string" where
  "utf8_sanitize s =
     concat (map (\<lambda>rb. if fst rb = rune_error \<and> length (snd rb) = 1 then utf8_encode rune_error
                       else snd rb) (runes s))"

text \<open>\<open>utf8.ValidString\<close>: no byte of the string is read as an invalid sequence.\<close>

definition utf8_valid :: "string \<Rightarrow> bool" where
  "utf8_valid s \<longleftrightarrow> list_all (\<lambda>rb. \<not> (fst rb = rune_error \<and> length (snd rb) = 1)) (runes s)"

fun json_norm :: "jvalue \<Rightarrow> jvalue" where
  "json_norm (JInt i) = JInt i"
| "json_norm (JStr s) = JStr (utf8_sanitize s)"
| "json_norm (JArr vs) = JArr (map json_norm vs)"
| "json_norm (JMap kvs) =
     JMap (map (\<lambda>kv. (utf8_sanitize (fst kv), json_norm (snd kv)))
               (sort_key (\<lambda>kv. map byte (fst kv)) kvs))"

definition hex_val :: "char \<Rightarrow> nat option" where
  "hex_val c =
     (let k = byte c
      in if 48 \<le> k \<and> k \<le> 57 then Some (k - 48)
         else if 97 \<le> k \<and> k \<le> 102 then Some (k - 87)
         else if 65 \<le> k \<and> k \<le> 70 then Some (k - 55)
         else None)"

fun hex4 :: "string \<Rightarrow> nat option" where
  "hex4 [a, b, c, d] =
     (case (hex_val a, hex_val b, hex_val c, hex_val d) of
        (Some w, Some x, Some y, Some z) \<Rightarrow> Some (((w * 16 + x) * 16 + y) * 16 + z)
      | _ \<Rightarrow> None)"
| "hex4 _ = None"

definition json_unescape :: "char \<Rightarrow> char option" where
  "json_unescape e =
     (if e = dquote \<or> e = backslash \<or> e = CHR ''/'' then Some e
      else if e = CHR ''b'' then Some (CHR 0x08)
      else if e = CHR ''f'' then Some (CHR 0x0C)
      else if e = CHR ''n'' then Some (CHR 0x0A)
      else if e = CHR ''r'' then Some (CHR 0x0D)
      else if e = CHR ''t'' then Some (CHR 0x09)
      else None)"

text \<open>The bytes of a string literal up to its closing quote, and what follows.\<close>

fun json_read_str :: "string \<Rightarrow> (string \<times> string) option" where
  "json_read_str [] = None"
| "json_read_str (c # cs) =
     (if c = dquote then Some ([], cs)
      else if c = backslash then
        (case cs of
           [] \<Rightarrow> None
         | e # cs' \<Rightarrow>
             if e = CHR ''u'' then
               (case hex4 (take 4 cs') of
                  None \<Rightarrow> None
                | Some r \<Rightarrow> map_option (apfst (\<lambda>bs. utf8_encode r @ bs)) (json_read_str (drop 4 cs')))
             else
               (case json_unescape e of
                  None \<Rightarrow> None
                | Some x \<Rightarrow> map_option (apfst (Cons x)) (json_read_str cs')))
      else if byte c < 32 then None
      else map_option (apfst (Cons c)) (json_read_str cs))"

definition is_digit :: "char \<Rightarrow> bool" where
  "is_digit c \<longleftrightarrow> c \<in> set digit_chars"

definition json_read_int :: "string \<Rightarrow> (jvalue \<times> string) option" where
  "json_read_int s =
     (let neg = (s \<noteq> [] \<and> hd s = CHR ''-''); t = (if neg then tl s else s);
          ds = takeWhile is_digit t
      in case parse_nat ds of
           None \<Rightarrow> None
         | Some n \<Rightarrow> Some (JInt (if neg then - int n else int n), dropWhile is_digit t))"

fun json_read_value :: "nat \<Rightarrow> string \<Rightarrow> (jvalue \<times> string) option"
and json_read_elems :: "nat \<Rightarrow> string \<Rightarrow> (jvalue list \<times> string) option"
and json_read_members :: "nat \<Rightarrow> string \<Rightarrow> ((string \<times> jvalue) list \<times> string) option" where
  "json_read_value 0 s = None"
| "json_read_value (Suc n) s =
     (case dropWhile json_ws s of
        [] \<Rightarrow> None
      | c # t \<Rightarrow>
          if c = dquote then map_option (apfst JStr) (json_read_str t)
          else if c = CHR ''['' then
            (case dropWhile json_ws t of
               [] \<Rightarrow> None
             | d # u \<Rightarrow> if d = CHR '']'' then Some (JArr [], u)
                        else map_option (apfst JArr) (json_read_elems n t))
          else if c = CHR ''{'' then
            (case dropWhile json_ws t of
               [] \<Rightarrow> None
             | d # u \<Rightarrow> if d = CHR ''}'' then Some (JMap [], u)
                        else map_option (apfst JMap) (json_read_members n t))
          else json_read_int (c # t))"
| "json_read_elems 0 s = None"
| "json_read_elems (Suc n) s =
     (case json_read_value n s of
        None \<Rightarrow> None
      | Some (v, r) \<Rightarrow>
          (case dropWhile json_ws r of
             [] \<Rightarrow> None
           | d # u \<Rightarrow> if d = CHR '','' then map_option (apfst (Cons v)) (json_read_elems n u)
                      else if d = CHR '']'' then Some ([v], u) else None))"
| "json_read_members 0 s = None"
| "json_read_members (Suc n) s =
     (case dropWhile json_ws s of
        [] \<Rightarrow> None
      | c # t \<Rightarrow>
          if c \<noteq> dquote then None
          else
            (case json_read_str t of
               None \<Rightarrow> None
             | Some (k, r) \<Rightarrow>
                 (case dropWhile json_ws r of
                    [] \<Rightarrow> None
                  | d # u \<Rightarrow>
                      if d \<noteq> CHR '':'' then None
                      else
                        (case json_read_value n u of
                           None \<Rightarrow> None
                         | Some (v, r') \<Rightarrow>
                             (case dropWhile json_ws r' of
                                [] \<Rightarrow> None
                              | e # w \<Rightarrow>
                                  if e = CHR '','' then map_option (apfst (Cons (k, v))) (json_read_members n w)
                                  else if e = CHR ''}'' then Some ([(k, v)], w) else None)))))"

definition json_read :: "string \<Rightarrow> jvalue option" where
  "json_read s =
     (case json_read_value (length s) s of
        Some (v, r) \<Rightarrow> if dropWhile json_ws r = [] then Some v else None
      | None \<Rightarrow> None)"

text \<open>The fuel a value needs: one unit for the value and one more for each element.\<close>

fun jsize :: "jvalue \<Rightarrow> nat" where
  "jsize (JInt i) = 1"
| "jsize (JStr s) = 1"
| "jsize (JArr vs) = Suc (sum_list (map (\<lambda>v. Suc (jsize v)) vs))"
| "jsize (JMap kvs) = Suc (sum_list (map (\<lambda>kv. Suc (jsize (snd kv))) kvs))"

declare dquote_def [model_defs] backslash_def [model_defs] hex_chars_def [model_defs]
  html_safe_def [model_defs] json_escape_ascii_def [model_defs] json_quote_def [model_defs]
  sep_join_def [model_defs] json_ws_def [model_defs] json_newline_def [model_defs]
  indent_step_def [model_defs] indent_at_def [model_defs] json_marshal_indent_def [model_defs]
  utf8_sanitize_def [model_defs] utf8_valid_def [model_defs]

section \<open>Lemmas\<close>

subsection \<open>The bytes of a copied rune\<close>

lemma utf8_encode_high:
  assumes r: "128 \<le> r" and c: "c \<in> set (utf8_encode r)"
  shows "128 \<le> byte c"
proof -
  have b: "\<And>n::nat. 128 \<le> n \<Longrightarrow> n < 256 \<Longrightarrow> 128 \<le> byte (char_of n)" by (simp add: byte_char_of)
  consider "r < 2048" | "2048 \<le> r" "\<not> valid_rune r" | "2048 \<le> r" "valid_rune r" "r < 65536"
    | "65536 \<le> r" "valid_rune r" by linarith
  then show ?thesis
  proof cases
    case 1
    then have "r div 64 < 32" by simp
    with 1 r c show ?thesis by (auto simp: utf8_encode_def intro!: b)
  next
    case 2
    with c show ?thesis by (auto simp: utf8_encode_def intro!: b)
  next
    case 3
    then have "r div 4096 < 16" by simp
    with 3 c show ?thesis by (auto simp: utf8_encode_def intro!: b)
  next
    case 4
    then have "r div 262144 < 5" by (simp add: valid_rune_def)
    with 4 c show ?thesis by (auto simp: utf8_encode_def intro!: b)
  qed
qed

text \<open>A rune \<open>appendString\<close> copies: its bytes are those of a valid rune above 0x7F.\<close>

lemma copied_rune:
  assumes c: "\<not> byte c < 128" and ok: "decode_rune (take 4 (c # cs)) \<noteq> (rune_error, 1)"
  shows "take (snd (decode_rune (take 4 (c # cs)))) (c # cs) = utf8_encode (fst (decode_rune (take 4 (c # cs)))) \<and>
         128 \<le> fst (decode_rune (take 4 (c # cs))) \<and>
         (\<forall>x \<in> set (take (snd (decode_rune (take 4 (c # cs)))) (c # cs)). 128 \<le> byte x)"
proof -
  let ?s = "take 4 (c # cs)"
  obtain r w where d: "decode_rune ?s = (r, w)" by (cases "decode_rune ?s")
  have ne: "?s \<noteq> []" by simp
  have wb: "1 \<le> w \<and> w \<le> length ?s" using decode_rune_width [OF ne] d by simp
  have "\<not> (r = rune_error \<and> w = 1)" using ok d by simp
  then have e: "take w ?s = utf8_encode r" using decode_rune_bytes [OF ne d] by blast
  have "length ?s \<le> 4" by (simp only: length_take)
  then have w4: "w \<le> 4" using wb by linarith
  have tw: "take w (c # cs) = take w ?s" using w4 by (simp only: take_take min_absorb1)
  have r: "128 \<le> r"
  proof (rule ccontr)
    assume "\<not> 128 \<le> r"
    then have "utf8_encode r = [char_of r]" by (simp add: utf8_encode_def)
    moreover have "hd (take w ?s) = c" using wb by (cases w) auto
    ultimately have "c = char_of r" using e by simp
    then have "byte c = r" using \<open>\<not> 128 \<le> r\<close> by (simp add: byte_char_of)
    with c \<open>\<not> 128 \<le> r\<close> show False by simp
  qed
  show ?thesis using d e tw r utf8_encode_high [OF r] by simp
qed

lemma high_not_special: "128 \<le> byte x \<Longrightarrow> x \<noteq> dquote \<and> x \<noteq> backslash"
  by (auto simp: dquote_def backslash_def byte_def)

lemma dquote_ne_backslash [simp]: "dquote \<noteq> backslash" "backslash \<noteq> dquote"
  by (simp_all add: dquote_def backslash_def)

lemma dquote_ne_brackets [simp]:
  "CHR ''['' \<noteq> dquote" "CHR ''{'' \<noteq> dquote" "CHR '']'' \<noteq> dquote" "CHR ''}'' \<noteq> dquote"
  "dquote \<noteq> CHR ''[''" "dquote \<noteq> CHR ''{''" "dquote \<noteq> CHR '']''" "dquote \<noteq> CHR ''}''"
  by (simp_all add: dquote_def)

lemma byte_less_256: "byte c < 256"
  by (simp add: byte_def)

lemma hex_chars_not_special: "i < 16 \<Longrightarrow> hex_chars ! i \<noteq> dquote \<and> hex_chars ! i \<noteq> backslash"
proof -
  assume "i < 16"
  then have "hex_chars ! i \<in> set hex_chars" by (simp add: hex_chars_def del: set_simps)
  moreover have "dquote \<notin> set hex_chars" "backslash \<notin> set hex_chars"
    by (simp_all add: hex_chars_def dquote_def backslash_def)
  ultimately show ?thesis by auto
qed

subsection \<open>\<open>appendIndent\<close> inside a string literal\<close>

lemma indent_loop_in_plain:
  "list_all (\<lambda>c. c \<noteq> dquote \<and> c \<noteq> backslash) p \<Longrightarrow>
   json_indent_loop ((indent_at d)\<lparr>ind_str := True\<rparr>) (p @ r) =
   p @ json_indent_loop ((indent_at d)\<lparr>ind_str := True\<rparr>) r"
  by (induction p) (simp_all add: indent_step_def indent_at_def Let_def)

lemma indent_loop_in_escape:
  "json_indent_loop ((indent_at d)\<lparr>ind_str := True\<rparr>) (backslash # x # r) =
   backslash # x # json_indent_loop ((indent_at d)\<lparr>ind_str := True\<rparr>) r"
  by (simp add: indent_step_def indent_at_def Let_def)

lemma indent_loop_in_close:
  "json_indent_loop ((indent_at d)\<lparr>ind_str := True\<rparr>) (dquote # r) =
   dquote # json_indent_loop (indent_at d) r"
  by (simp add: indent_step_def indent_at_def Let_def)

lemma escape_ascii_shape:
  "html_safe c \<and> json_escape_ascii c = [c] \<or>
   (\<exists>x p. json_escape_ascii c = backslash # x # p \<and> list_all (\<lambda>c. c \<noteq> dquote \<and> c \<noteq> backslash) p)"
proof (cases "html_safe c")
  case True
  then show ?thesis by (simp add: json_escape_ascii_def)
next
  case False
  have h: "byte c div 16 < 16" "byte c mod 16 < 16"
    using byte_less_256 [of c] by (simp_all add: div_less_iff_less_mult)
  note hx = hex_chars_not_special [OF h(1)] hex_chars_not_special [OF h(2)]
  have "json_escape_ascii c = backslash # hd (tl (json_escape_ascii c)) # tl (tl (json_escape_ascii c)) \<and>
        list_all (\<lambda>c. c \<noteq> dquote \<and> c \<noteq> backslash) (tl (tl (json_escape_ascii c)))"
    using False hx by (simp add: json_escape_ascii_def dquote_def backslash_def)
  then show ?thesis by blast
qed

lemma indent_loop_escape_ascii:
  "json_indent_loop ((indent_at d)\<lparr>ind_str := True\<rparr>) (json_escape_ascii c @ r) =
   json_escape_ascii c @ json_indent_loop ((indent_at d)\<lparr>ind_str := True\<rparr>) r"
  using escape_ascii_shape [of c]
proof
  assume "html_safe c \<and> json_escape_ascii c = [c]"
  then show ?thesis using indent_loop_in_plain [of "[c]" d r] by (simp add: html_safe_def)
next
  assume "\<exists>x p. json_escape_ascii c = backslash # x # p \<and>
            list_all (\<lambda>c. c \<noteq> dquote \<and> c \<noteq> backslash) p"
  then obtain x p where e: "json_escape_ascii c = backslash # x # p"
    and p: "list_all (\<lambda>c. c \<noteq> dquote \<and> c \<noteq> backslash) p" by blast
  show ?thesis by (simp only: e append_Cons indent_loop_in_escape indent_loop_in_plain [OF p])
qed

lemma rune_chunk_shape:
  fixes c :: char and cs :: string
  assumes c: "\<not> byte c < 128"
  defines "D \<equiv> decode_rune (take 4 (c # cs))"
  shows "list_all (\<lambda>c. c \<noteq> dquote \<and> c \<noteq> backslash)
           (if D = (rune_error, 1) then ''fffd''
            else if fst D = 8232 \<or> fst D = 8233 then ''202'' @ [hex_chars ! (fst D mod 16)]
            else [])"
    and "D \<noteq> (rune_error, 1) \<Longrightarrow>
         list_all (\<lambda>c. c \<noteq> dquote \<and> c \<noteq> backslash) (take (snd D) (c # cs))"
proof -
  have "fst D mod 16 < 16" by simp
  then show "list_all (\<lambda>c. c \<noteq> dquote \<and> c \<noteq> backslash)
           (if D = (rune_error, 1) then ''fffd''
            else if fst D = 8232 \<or> fst D = 8233 then ''202'' @ [hex_chars ! (fst D mod 16)]
            else [])"
    using hex_chars_not_special [of "fst D mod 16"] by (simp add: dquote_def backslash_def)
next
  assume "D \<noteq> (rune_error, 1)"
  then have "\<forall>x \<in> set (take (snd D) (c # cs)). 128 \<le> byte x"
    using copied_rune [OF c] by (simp add: D_def)
  then show "list_all (\<lambda>c. c \<noteq> dquote \<and> c \<noteq> backslash) (take (snd D) (c # cs))"
    using high_not_special by (simp add: list_all_iff)
qed

lemma indent_loop_str_body:
  "json_indent_loop ((indent_at d)\<lparr>ind_str := True\<rparr>) (json_str_body s @ r) =
   json_str_body s @ json_indent_loop ((indent_at d)\<lparr>ind_str := True\<rparr>) r"
proof (induction s arbitrary: r rule: json_str_body.induct)
  case 1
  then show ?case by simp
next
  case (2 c cs)
  let ?S = "(indent_at d)\<lparr>ind_str := True\<rparr>"
  show ?case
  proof (cases "byte c < 128")
    case True
    then show ?thesis using "2.IH"(1) [OF True] by (simp add: indent_loop_escape_ascii)
  next
    case False
    define D where "D = decode_rune (take 4 (c # cs))"
    define ch where "ch = (if D = (rune_error, 1) then backslash # ''ufffd''
            else if fst D = 8232 \<or> fst D = 8233 then backslash # ''u202'' @ [hex_chars ! (fst D mod 16)]
            else take (snd D) (c # cs))"
    have body: "json_str_body (c # cs) = ch @ json_str_body (drop (snd D) (c # cs))"
      using False by (simp add: ch_def D_def)
    have chunk: "json_indent_loop ?S (ch @ r') = ch @ json_indent_loop ?S r'" for r'
    proof (cases "D = (rune_error, 1) \<or> fst D = 8232 \<or> fst D = 8233")
      case True
      then have "ch = backslash # CHR ''u'' #
                      (if D = (rune_error, 1) then ''fffd''
                       else if fst D = 8232 \<or> fst D = 8233 then ''202'' @ [hex_chars ! (fst D mod 16)]
                       else [])"
        by (auto simp: ch_def)
      then show ?thesis
        using rune_chunk_shape(1) [OF False, of cs]
        by (simp only: D_def append_Cons indent_loop_in_escape indent_loop_in_plain)
    next
      case nb: False
      then have "ch = take (snd D) (c # cs)" by (simp add: ch_def)
      moreover have "D \<noteq> (rune_error, 1)" using nb by blast
      ultimately show ?thesis
        using rune_chunk_shape(2) [OF False, of cs] by (simp add: D_def indent_loop_in_plain)
    qed
    have "json_indent_loop ?S (json_str_body (c # cs) @ r) =
          json_indent_loop ?S (ch @ (json_str_body (drop (snd D) (c # cs)) @ r))"
      by (simp only: body append_assoc)
    also have "\<dots> = ch @ json_indent_loop ?S (json_str_body (drop (snd D) (c # cs)) @ r)"
      by (rule chunk)
    also have "\<dots> = ch @ json_str_body (drop (snd D) (c # cs)) @ json_indent_loop ?S r"
      by (simp only: D_def "2.IH"(2) [OF False])
    finally show ?thesis by (simp only: body append_assoc)
  qed
qed

lemma indent_loop_quote:
  "json_indent_loop (indent_at d) (json_quote s @ r) = json_quote s @ json_indent_loop (indent_at d) r"
proof -
  have "indent_step (indent_at d) dquote = ([dquote], (indent_at d)\<lparr>ind_str := True\<rparr>)"
    by (simp add: indent_step_def indent_at_def json_ws_def dquote_def Let_def)
  then have "json_indent_loop (indent_at d) (json_quote s @ r) =
             dquote # json_indent_loop ((indent_at d)\<lparr>ind_str := True\<rparr>) (json_str_body s @ dquote # r)"
    by (simp add: json_quote_def)
  also have "\<dots> = dquote # json_str_body s @ dquote # json_indent_loop (indent_at d) r"
    by (simp only: indent_loop_str_body indent_loop_in_close)
  finally show ?thesis by (simp add: json_quote_def)
qed

subsection \<open>\<open>appendIndent\<close> outside string literals\<close>

lemma indent_loop_plain:
  "\<forall>c \<in> set p. c \<in> insert (CHR ''-'') (set digit_chars) \<Longrightarrow>
   json_indent_loop (indent_at d) (p @ r) = p @ json_indent_loop (indent_at d) r"
proof (induction p)
  case Nil
  then show ?case by simp
next
  case (Cons c p)
  then have "c \<in> insert (CHR ''-'') (set digit_chars)" by simp
  then have "indent_step (indent_at d) c = ([c], indent_at d)"
    by (auto simp: digit_chars_def indent_step_def indent_at_def json_ws_def dquote_def Let_def)
  with Cons show ?case by simp
qed

lemma indent_loop_fmt_d:
  "json_indent_loop (indent_at d) (fmt_d i @ r) = fmt_d i @ json_indent_loop (indent_at d) r"
  using fmt_d_chars [of i] by (intro indent_loop_plain) blast

lemma indent_loop_need:
  assumes "\<not> json_ws c" "c \<noteq> CHR ''}''" "c \<noteq> CHR '']''"
  shows "json_indent_loop ((indent_at d)\<lparr>ind_need := True\<rparr>) (c # r) =
         json_newline (d + 1) @ json_indent_loop (indent_at (d + 1)) (c # r)"
proof -
  have "indent_step ((indent_at d)\<lparr>ind_need := True\<rparr>) c =
        (json_newline (d + 1) @ fst (indent_step (indent_at (d + 1)) c),
         snd (indent_step (indent_at (d + 1)) c))"
    using assms by (simp add: indent_step_def indent_at_def Let_def)
  then show ?thesis by simp
qed

lemma indent_loop_comma:
  "json_indent_loop (indent_at d) (CHR '','' # r) =
   CHR '','' # json_newline d @ json_indent_loop (indent_at d) r"
  by (simp add: indent_step_def indent_at_def json_ws_def Let_def)

lemma indent_loop_colon:
  "json_indent_loop (indent_at d) (CHR '':'' # r) = '': '' @ json_indent_loop (indent_at d) r"
  by (simp add: indent_step_def indent_at_def json_ws_def Let_def)

lemma indent_loop_open:
  "c = CHR ''['' \<or> c = CHR ''{'' \<Longrightarrow>
   json_indent_loop (indent_at d) (c # r) = c # json_indent_loop ((indent_at d)\<lparr>ind_need := True\<rparr>) r"
  by (auto simp: indent_step_def indent_at_def json_ws_def Let_def)

lemma indent_loop_close_empty:
  "c = CHR '']'' \<or> c = CHR ''}'' \<Longrightarrow>
   json_indent_loop ((indent_at d)\<lparr>ind_need := True\<rparr>) (c # r) = c # json_indent_loop (indent_at d) r"
  by (auto simp: indent_step_def indent_at_def json_ws_def Let_def)

lemma indent_loop_close:
  "c = CHR '']'' \<or> c = CHR ''}'' \<Longrightarrow>
   json_indent_loop (indent_at (d + 1)) (c # r) = json_newline d @ c # json_indent_loop (indent_at d) r"
  by (auto simp: indent_step_def indent_at_def json_ws_def Let_def)

lemma json_marshal_hd:
  "\<exists>c t. json_marshal v = c # t \<and> \<not> json_ws c \<and> c \<noteq> CHR ''}'' \<and> c \<noteq> CHR '']''"
proof (cases v)
  case (JInt i)
  obtain c t where ct: "fmt_d i = c # t"
    by (cases "fmt_d i") (auto simp: fmt_d_def split: if_splits)
  then have "c \<in> insert (CHR ''-'') (set digit_chars)" using fmt_d_chars [of i] by auto
  then have "\<not> json_ws c \<and> c \<noteq> CHR ''}'' \<and> c \<noteq> CHR '']''"
    by (auto simp: digit_chars_def json_ws_def)
  with JInt ct show ?thesis by simp
qed (auto simp: json_quote_def json_ws_def dquote_def)

lemma indent_loop_items:
  assumes "\<forall>x \<in> set xs. \<forall>r. json_indent_loop (indent_at e) (f x @ r) = g x @ json_indent_loop (indent_at e) r"
  shows "json_indent_loop (indent_at e) (concat (map (\<lambda>z. '','' @ z) (map f xs)) @ r) =
         concat (map (\<lambda>z. (CHR '','' # json_newline e) @ z) (map g xs)) @ json_indent_loop (indent_at e) r"
  using assms by (induction xs arbitrary: r) (simp_all add: indent_loop_comma del: json_indent_loop.simps)

lemma sep_join_Cons: "sep_join sep (y # ys) = y @ concat (map (\<lambda>z. sep @ z) ys)"
  by (simp add: sep_join_def)

lemma indent_loop_bracket:
  assumes items: "\<forall>x \<in> set (y # ys). \<forall>r. json_indent_loop (indent_at (d + 1)) (f x @ r) =
                                          g x @ json_indent_loop (indent_at (d + 1)) r"
    and hd: "f y = c # t" "\<not> json_ws c" "c \<noteq> CHR ''}''" "c \<noteq> CHR '']''"
    and op: "op = CHR ''['' \<or> op = CHR ''{''" and cl: "cl = CHR '']'' \<or> cl = CHR ''}''"
  shows "json_indent_loop (indent_at d) (op # sep_join '','' (map f (y # ys)) @ cl # r) =
         op # json_newline (d + 1) @ sep_join (CHR '','' # json_newline (d + 1)) (map g (y # ys)) @
         json_newline d @ cl # json_indent_loop (indent_at d) r"
proof -
  let ?rest = "concat (map (\<lambda>z. '','' @ z) (map f ys)) @ cl # r"
  let ?grest = "concat (map (\<lambda>z. (CHR '','' # json_newline (d + 1)) @ z) (map g ys))"
  have "json_indent_loop (indent_at d) (op # f y @ ?rest) =
        op # json_indent_loop ((indent_at d)\<lparr>ind_need := True\<rparr>) (f y @ ?rest)"
    using op by (rule indent_loop_open)
  also have "\<dots> = op # json_newline (d + 1) @ json_indent_loop (indent_at (d + 1)) (f y @ ?rest)"
    using indent_loop_need [OF hd(2-4)] by (simp only: hd append_Cons)
  also have "\<dots> = op # json_newline (d + 1) @ g y @ json_indent_loop (indent_at (d + 1)) ?rest"
    using items by simp
  also have "\<dots> = op # json_newline (d + 1) @ g y @ ?grest @
                  json_indent_loop (indent_at (d + 1)) (cl # r)"
    using indent_loop_items [of ys "d + 1" f g "cl # r"] items by simp
  also have "\<dots> = op # json_newline (d + 1) @ g y @ ?grest @
                  json_newline d @ cl # json_indent_loop (indent_at d) r"
    by (simp only: indent_loop_close [OF cl])
  finally show ?thesis by (simp only: sep_join_Cons list.map append_assoc append_Cons)
qed

lemma json_marshal_indent_gen:
  "json_indent_loop (indent_at d) (json_marshal v @ r) = json_layout d v @ json_indent_loop (indent_at d) r"
proof (induction v arbitrary: d r rule: json_marshal.induct)
  case (1 i)
  then show ?case by (simp add: indent_loop_fmt_d)
next
  case (2 s)
  then show ?case by (simp add: indent_loop_quote)
next
  case (3 vs)
  show ?case
  proof (cases vs)
    case Nil
    then show ?thesis
      by (simp add: sep_join_def indent_loop_open indent_loop_close_empty del: json_indent_loop.simps)
  next
    case (Cons y ys)
    obtain c t where hd: "json_marshal y = c # t" "\<not> json_ws c" "c \<noteq> CHR ''}''" "c \<noteq> CHR '']''"
      using json_marshal_hd [of y] by blast
    have items: "\<forall>x \<in> set (y # ys). \<forall>r. json_indent_loop (indent_at (d + 1)) (json_marshal x @ r) =
                   json_layout (d + 1) x @ json_indent_loop (indent_at (d + 1)) r"
      using "3.IH" Cons by blast
    show ?thesis
      using indent_loop_bracket [OF items hd, of "CHR ''[''" "CHR '']''" r] Cons
      by (simp del: json_indent_loop.simps)
  qed
next
  case (4 kvs)
  let ?kvs = "sort_key (\<lambda>kv. map byte (fst kv)) kvs"
  let ?f = "\<lambda>kv. json_quote (fst kv) @ CHR '':'' # json_marshal (snd kv)"
  let ?g = "\<lambda>kv. json_quote (fst kv) @ '': '' @ json_layout (d + 1) (snd kv)"
  show ?case
  proof (cases ?kvs)
    case Nil
    then have "kvs = []" by (metis length_0_conv length_sort)
    then show ?thesis
      by (simp add: sep_join_def indent_loop_open indent_loop_close_empty del: json_indent_loop.simps)
  next
    case (Cons y ys)
    have ne: "kvs \<noteq> []" using Cons by auto
    have items: "\<forall>x \<in> set (y # ys). \<forall>r. json_indent_loop (indent_at (d + 1)) (?f x @ r) =
                   ?g x @ json_indent_loop (indent_at (d + 1)) r"
    proof (intro ballI allI)
      fix x r
      assume "x \<in> set (y # ys)"
      then have ih: "json_indent_loop (indent_at (d + 1)) (json_marshal (snd x) @ r') =
                     json_layout (d + 1) (snd x) @ json_indent_loop (indent_at (d + 1)) r'" for r'
        using "4.IH" Cons by (metis)
      show "json_indent_loop (indent_at (d + 1)) (?f x @ r) = ?g x @ json_indent_loop (indent_at (d + 1)) r"
        by (simp add: indent_loop_quote indent_loop_colon ih del: json_indent_loop.simps)
    qed
    have hd: "?f y = dquote # (json_str_body (fst y) @ [dquote] @ CHR '':'' # json_marshal (snd y))"
      "\<not> json_ws dquote" "dquote \<noteq> CHR ''}''" "dquote \<noteq> CHR '']''"
      by (simp_all add: json_quote_def json_ws_def dquote_def)
    show ?thesis
      using indent_loop_bracket [OF items hd, of "CHR ''{''" "CHR ''}''" r] Cons ne
      by (simp del: json_indent_loop.simps)
  qed
qed

subsection \<open>Reading a string literal back\<close>

lemma decode_rune_take4: "decode_rune (take 4 s) = decode_rune s"
proof -
  have sz: "utf8_size (byte (s ! 0)) \<le> 4" by (rule utf8_size_le4)
  have n: "\<And>k. k \<le> 4 \<Longrightarrow> (min (length s) 4 < k) = (length s < k)" by auto
  show ?thesis
    using sz by (simp add: decode_rune_def Let_def n min_def)
qed

lemma utf8_sanitize_Cons:
  "utf8_sanitize (c # cs) =
     (if decode_rune (c # cs) = (rune_error, 1) then utf8_encode rune_error
      else take (snd (decode_rune (c # cs))) (c # cs)) @
     utf8_sanitize (drop (snd (decode_rune (c # cs))) (c # cs))"
proof -
  have w: "1 \<le> snd (decode_rune (c # cs)) \<and> snd (decode_rune (c # cs)) \<le> length (c # cs)"
    using decode_rune_width [of "c # cs"] by simp
  have "length (take (snd (decode_rune (c # cs))) (c # cs)) = snd (decode_rune (c # cs))"
    using w by simp
  then show ?thesis
    by (simp add: utf8_sanitize_def runes.simps [of "c # cs"] prod_eq_iff)
qed

lemma utf8_sanitize_ascii_Cons: "byte c < 128 \<Longrightarrow> utf8_sanitize (c # cs) = c # utf8_sanitize cs"
  by (simp add: utf8_sanitize_Cons decode_rune_ascii rune_error_def)

lemma utf8_sanitize_Nil [simp]: "utf8_sanitize [] = []"
  by (simp add: utf8_sanitize_def)

lemma hex_val_hex_chars: "i < 16 \<Longrightarrow> hex_val (hex_chars ! i) = Some i"
  by (auto simp: less_Suc_eq numeral_eq_Suc hex_chars_def hex_val_def byte_def)

lemma read_str_plain:
  "list_all (\<lambda>c. c \<noteq> dquote \<and> c \<noteq> backslash \<and> 32 \<le> byte c) p \<Longrightarrow>
   json_read_str (p @ r) = map_option (apfst (\<lambda>bs. p @ bs)) (json_read_str r)"
  by (induction p) (simp_all add: option.map_comp comp_def apfst_def map_prod_def split_def option.map_ident)

lemma read_str_escape_ascii:
  assumes c: "byte c < 128"
  shows "json_read_str (json_escape_ascii c @ r) = map_option (apfst (Cons c)) (json_read_str r)"
proof -
  let ?b = "byte c"
  have h: "?b div 16 < 16" "?b mod 16 < 16"
    using byte_less_256 [of c] by (simp_all add: div_less_iff_less_mult)
  have u: "json_read_str (backslash # CHR ''u'' # CHR ''0'' # CHR ''0'' #
             hex_chars ! (?b div 16) # hex_chars ! (?b mod 16) # r) =
           map_option (apfst (Cons c)) (json_read_str r)"
  proof -
    have "hex4 [CHR ''0'', CHR ''0'', hex_chars ! (?b div 16), hex_chars ! (?b mod 16)] = Some ?b"
      using hex_val_hex_chars [OF h(1)] hex_val_hex_chars [OF h(2)]
      by (simp add: hex_val_def byte_def)
    moreover have "utf8_encode ?b = [c]" using c by (simp add: utf8_encode_def)
    ultimately show ?thesis by (simp add: apfst_def map_prod_def option.map_comp comp_def)
  qed
  consider "html_safe c" | "\<not> html_safe c" "c = backslash \<or> c = dquote"
    | "\<not> html_safe c" "c \<noteq> backslash" "c \<noteq> dquote" by blast
  then show ?thesis
  proof cases
    case 1
    then show ?thesis using read_str_plain [of "[c]" r] by (simp add: json_escape_ascii_def html_safe_def)
  next
    case 2
    then show ?thesis
      by (auto simp: json_escape_ascii_def json_unescape_def dquote_def backslash_def)
  next
    case 3
    then show ?thesis
      using u by (simp add: json_escape_ascii_def json_unescape_def dquote_def backslash_def)
  qed
qed

lemma read_str_body: "json_read_str (json_str_body s @ dquote # r) = Some (utf8_sanitize s, r)"
proof (induction s rule: json_str_body.induct)
  case 1
  then show ?case by simp
next
  case (2 c cs)
  show ?case
  proof (cases "byte c < 128")
    case True
    then show ?thesis
      using "2.IH"(1) [OF True] read_str_escape_ascii [OF True]
      by (simp add: utf8_sanitize_ascii_Cons)
  next
    case False
    define D where "D = decode_rune (take 4 (c # cs))"
    have D': "decode_rune (c # cs) = D" unfolding D_def by (rule decode_rune_take4 [symmetric])
    define kept where "kept = (if D = (rune_error, 1) then utf8_encode rune_error else take (snd D) (c # cs))"
    define ch where "ch = (if D = (rune_error, 1) then backslash # ''ufffd''
            else if fst D = 8232 \<or> fst D = 8233 then backslash # ''u202'' @ [hex_chars ! (fst D mod 16)]
            else take (snd D) (c # cs))"
    let ?X = "json_str_body (drop (snd D) (c # cs)) @ dquote # r"
    have body: "json_str_body (c # cs) = ch @ json_str_body (drop (snd D) (c # cs))"
      using False by (simp add: ch_def D_def)
    have san: "utf8_sanitize (c # cs) = kept @ utf8_sanitize (drop (snd D) (c # cs))"
      by (simp add: utf8_sanitize_Cons D' kept_def)
    have chunk: "json_read_str (ch @ ?X) = map_option (apfst (\<lambda>bs. kept @ bs)) (json_read_str ?X)"
    proof -
      consider "D = (rune_error, 1)" | "D \<noteq> (rune_error, 1)" "fst D = 8232 \<or> fst D = 8233"
        | "D \<noteq> (rune_error, 1)" "\<not> (fst D = 8232 \<or> fst D = 8233)" by blast
      then show ?thesis
      proof cases
        case 1
        then show ?thesis
          by (simp add: ch_def kept_def hex_val_def byte_def rune_error_def)
      next
        case 2
        have cr: "take (snd D) (c # cs) = utf8_encode (fst D)"
          using copied_rune [OF False] 2 by (simp add: D_def)
        have "hex4 (''202'' @ [hex_chars ! (fst D mod 16)]) = Some (fst D)"
          using 2(2) by (auto simp: hex_chars_def hex_val_def byte_def)
        then show ?thesis using 2 cr by (simp add: ch_def kept_def)
      next
        case 3
        then have "\<forall>x \<in> set (take (snd D) (c # cs)). 128 \<le> byte x"
          using copied_rune [OF False] by (simp add: D_def)
        then have "list_all (\<lambda>c. c \<noteq> dquote \<and> c \<noteq> backslash \<and> 32 \<le> byte c) (take (snd D) (c # cs))"
          using high_not_special by (fastforce simp: list_all_iff)
        then show ?thesis using 3 by (simp add: ch_def kept_def read_str_plain)
      qed
    qed
    have "json_read_str (json_str_body (c # cs) @ dquote # r) = json_read_str (ch @ ?X)"
      by (simp only: body append_assoc)
    also have "\<dots> = Some (kept @ utf8_sanitize (drop (snd D) (c # cs)), r)"
      using chunk "2.IH"(2) [OF False] by (simp add: D_def)
    finally show ?thesis by (simp only: san)
  qed
qed

subsection \<open>Reading values back\<close>

lemma read_int_fmt_d:
  assumes r: "r = [] \<or> \<not> is_digit (hd r)"
  shows "json_read_int (fmt_d i @ r) = Some (JInt i, r)"
proof -
  have dig: "\<forall>x \<in> set (nat_digits n). is_digit x" for n
    using nat_digits_chars [of n] by (auto simp: is_digit_def)
  have tw: "takeWhile is_digit (nat_digits n @ r) = nat_digits n" for n
    using dig [of n] r by (auto simp: takeWhile_append2 takeWhile_eq_Nil_iff)
  have dw: "dropWhile is_digit (nat_digits n @ r) = r" for n
    using dig [of n] r by (auto simp: dropWhile_append2 dropWhile_eq_self_iff)
  have hd: "hd (nat_digits n @ r) \<noteq> CHR ''-''" for n
  proof -
    have "hd (nat_digits n) \<in> set digit_chars"
      using nat_digits_chars [of n] hd_in_set [OF nat_digits_not_nil] by blast
    then show ?thesis by (auto simp: digit_chars_def)
  qed
  show ?thesis
  proof (cases "i < 0")
    case True
    then show ?thesis by (simp add: json_read_int_def fmt_d_def tw dw Let_def)
  next
    case False
    then show ?thesis using hd [of "nat i"] by (simp add: json_read_int_def fmt_d_def tw dw Let_def)
  qed
qed

lemma json_newline_ws: "\<forall>c \<in> set (json_newline d). json_ws c"
  by (auto simp: json_newline_def json_ws_def)

lemma dropWhile_ws_prefix:
  "\<forall>c \<in> set w. json_ws c \<Longrightarrow> dropWhile json_ws (w @ s) = dropWhile json_ws s"
  by (induction w) auto

lemma read_value_ws:
  "\<forall>c \<in> set w. json_ws c \<Longrightarrow> json_read_value n (w @ s) = json_read_value n s"
  by (cases n) (simp_all add: dropWhile_ws_prefix)

lemma json_layout_hd:
  "\<exists>c t. json_layout d v = c # t \<and> \<not> json_ws c \<and> c \<noteq> CHR ''}'' \<and> c \<noteq> CHR '']'' \<and>
         (c = dquote \<or> c = CHR ''['' \<or> c = CHR ''{'' \<or> c \<in> insert (CHR ''-'') (set digit_chars))"
proof (cases v)
  case (JInt i)
  obtain c t where ct: "fmt_d i = c # t"
    by (cases "fmt_d i") (auto simp: fmt_d_def split: if_splits)
  then have "c \<in> insert (CHR ''-'') (set digit_chars)" using fmt_d_chars [of i] by auto
  then have "\<not> json_ws c \<and> c \<noteq> CHR ''}'' \<and> c \<noteq> CHR '']''"
    by (auto simp: digit_chars_def json_ws_def)
  with JInt ct \<open>c \<in> insert (CHR ''-'') (set digit_chars)\<close> show ?thesis by simp
qed (auto simp: json_quote_def json_ws_def dquote_def)

lemma json_ws_chars [simp]:
  "json_ws (CHR '' '')" "\<not> json_ws (CHR '']'')" "\<not> json_ws (CHR ''}'')" "\<not> json_ws (CHR '','')"
  "\<not> json_ws (CHR '':'')" "\<not> json_ws dquote" "\<not> json_ws (CHR ''['')" "\<not> json_ws (CHR ''{'')"
  by (simp_all add: json_ws_def dquote_def)

lemma ws_close_not_digit:
  "\<forall>c \<in> set w. json_ws c \<Longrightarrow> cl = CHR '']'' \<or> cl = CHR ''}'' \<Longrightarrow>
   w @ cl # r = [] \<or> \<not> is_digit (hd (w @ cl # r))"
  by (cases w) (auto simp: is_digit_def digit_chars_def json_ws_def)

lemma comma_not_digit: "\<not> is_digit (CHR '','')"
  by (simp add: is_digit_def digit_chars_def)

lemma read_elems_layout:
  assumes ih: "\<forall>x \<in> set (y # ys). \<forall>n r. jsize x \<le> n \<longrightarrow> (r = [] \<or> \<not> is_digit (hd r)) \<longrightarrow>
                 json_read_value n (json_layout e x @ r) = Some (json_norm x, r)"
    and fuel: "sum_list (map (\<lambda>v. Suc (jsize v)) (y # ys)) \<le> m"
    and w: "\<forall>c \<in> set w. json_ws c"
  shows "json_read_elems m (json_newline e @ json_layout e y @
           concat (map (\<lambda>z. (CHR '','' # json_newline e) @ z) (map (json_layout e) ys)) @
           w @ CHR '']'' # r) = Some (map json_norm (y # ys), r)"
  using ih fuel
proof (induction ys arbitrary: y m)
  case Nil
  obtain m' where m: "m = Suc m'" using Nil.prems(2) by (cases m) auto
  have "jsize y \<le> m'" using Nil.prems(2) m by simp
  then have "json_read_value m' (json_layout e y @ w @ CHR '']'' # r) = Some (json_norm y, w @ CHR '']'' # r)"
    using Nil.prems(1) ws_close_not_digit [OF w] by simp
  then show ?case
    using m json_newline_ws [of e] w by (simp add: read_value_ws dropWhile_ws_prefix)
next
  case (Cons z zs)
  obtain m' where m: "m = Suc m'" using Cons.prems(2) by (cases m) auto
  let ?rest = "concat (map (\<lambda>z. (CHR '','' # json_newline e) @ z) (map (json_layout e) zs)) @ w @ CHR '']'' # r"
  have "jsize y \<le> m'" using Cons.prems(2) m by simp
  then have y: "json_read_value m' (json_layout e y @ CHR '','' # json_newline e @ json_layout e z @ ?rest) =
                Some (json_norm y, CHR '','' # json_newline e @ json_layout e z @ ?rest)"
    using Cons.prems(1) comma_not_digit by simp
  have ih: "json_read_elems m' (json_newline e @ json_layout e z @ ?rest) = Some (map json_norm (z # zs), r)"
    using Cons.IH [of z m'] Cons.prems m by simp
  show ?case
    using m y ih json_newline_ws [of e] by (simp add: read_value_ws)
qed

lemma read_members_layout:
  assumes ih: "\<forall>x \<in> set (y # ys). \<forall>n r. jsize (snd x) \<le> n \<longrightarrow> (r = [] \<or> \<not> is_digit (hd r)) \<longrightarrow>
                 json_read_value n (json_layout e (snd x) @ r) = Some (json_norm (snd x), r)"
    and fuel: "sum_list (map (\<lambda>kv. Suc (jsize (snd kv))) (y # ys)) \<le> m"
    and w: "\<forall>c \<in> set w. json_ws c"
  shows "json_read_members m (json_newline e @
           (json_quote (fst y) @ '': '' @ json_layout e (snd y)) @
           concat (map (\<lambda>z. (CHR '','' # json_newline e) @ z)
             (map (\<lambda>kv. json_quote (fst kv) @ '': '' @ json_layout e (snd kv)) ys)) @
           w @ CHR ''}'' # r) =
         Some (map (\<lambda>kv. (utf8_sanitize (fst kv), json_norm (snd kv))) (y # ys), r)"
  using ih fuel
proof (induction ys arbitrary: y m)
  case Nil
  obtain m' where m: "m = Suc m'" using Nil.prems(2) by (cases m) auto
  have "jsize (snd y) \<le> m'" using Nil.prems(2) m by simp
  then have v: "json_read_value m' (CHR '' '' # json_layout e (snd y) @ w @ CHR ''}'' # r) =
                Some (json_norm (snd y), w @ CHR ''}'' # r)"
    using Nil.prems(1) ws_close_not_digit [OF w] read_value_ws [of "[CHR '' '']"] by simp
  show ?case
    using m v json_newline_ws [of e] w
    by (simp add: dropWhile_ws_prefix json_quote_def read_str_body)
next
  case (Cons z zs)
  obtain m' where m: "m = Suc m'" using Cons.prems(2) by (cases m) auto
  let ?rest = "concat (map (\<lambda>z. (CHR '','' # json_newline e) @ z)
                 (map (\<lambda>kv. json_quote (fst kv) @ '': '' @ json_layout e (snd kv)) zs)) @ w @ CHR ''}'' # r"
  let ?after = "CHR '','' # json_newline e @ (json_quote (fst z) @ '': '' @ json_layout e (snd z)) @ ?rest"
  have "jsize (snd y) \<le> m'" using Cons.prems(2) m by simp
  then have v: "json_read_value m' (CHR '' '' # json_layout e (snd y) @ ?after) = Some (json_norm (snd y), ?after)"
    using Cons.prems(1) comma_not_digit read_value_ws [of "[CHR '' '']"] by simp
  have ih: "json_read_members m' (json_newline e @ (json_quote (fst z) @ '': '' @ json_layout e (snd z)) @ ?rest) =
            Some (map (\<lambda>kv. (utf8_sanitize (fst kv), json_norm (snd kv))) (z # zs), r)"
    using Cons.IH [of z m'] Cons.prems m by simp
  show ?case
    using m v ih json_newline_ws [of e]
    by (simp add: dropWhile_ws_prefix json_quote_def read_str_body)
qed

lemma sum_list_sort_key: "sum_list (map g (sort_key f xs)) = sum_list (map (g :: 'a \<Rightarrow> nat) xs)"
proof -
  have "sum_mset (mset (map g (sort_key f xs))) = sum_mset (mset (map g xs))" by simp
  then show ?thesis by (simp only: sum_mset_sum_list)
qed

lemma read_value_layout:
  "jsize v \<le> n \<Longrightarrow> (r = [] \<or> \<not> is_digit (hd r)) \<Longrightarrow>
   json_read_value n (json_layout d v @ r) = Some (json_norm v, r)"
proof (induction v arbitrary: d n r rule: json_marshal.induct)
  case (1 i)
  obtain m where m: "n = Suc m" using "1.prems"(1) by (cases n) auto
  obtain c t where ct: "fmt_d i = c # t"
    by (cases "fmt_d i") (auto simp: fmt_d_def split: if_splits)
  then have "c \<in> insert (CHR ''-'') (set digit_chars)" using fmt_d_chars [of i] by auto
  then have "\<not> json_ws c \<and> c \<noteq> dquote \<and> c \<noteq> CHR ''['' \<and> c \<noteq> CHR ''{''"
    by (auto simp: dquote_def digit_chars_def json_ws_def)
  then show ?case
    using m ct read_int_fmt_d [OF "1.prems"(2), of i] by simp
next
  case (2 s)
  obtain m where m: "n = Suc m" using "2.prems"(1) by (cases n) auto
  then show ?case by (simp add: json_quote_def read_str_body)
next
  case (3 vs)
  obtain m where m: "n = Suc m" using "3.prems"(1) by (cases n) auto
  show ?case
  proof (cases vs)
    case Nil
    then show ?thesis using m by simp
  next
    case (Cons y ys)
    have ih: "\<forall>x \<in> set (y # ys). \<forall>n r. jsize x \<le> n \<longrightarrow> (r = [] \<or> \<not> is_digit (hd r)) \<longrightarrow>
                json_read_value n (json_layout (d + 1) x @ r) = Some (json_norm x, r)"
      using "3.IH" Cons by blast
    have fuel: "sum_list (map (\<lambda>v. Suc (jsize v)) (y # ys)) \<le> m" using "3.prems"(1) m Cons by simp
    obtain c t where ct: "json_layout (d + 1) y = c # t" "\<not> json_ws c" "c \<noteq> CHR '']''"
      using json_layout_hd [of "d + 1" y] by blast
    have el: "json_read_elems m (json_newline (d + 1) @ json_layout (d + 1) y @
           concat (map (\<lambda>z. (CHR '','' # json_newline (d + 1)) @ z) (map (json_layout (d + 1)) ys)) @
           json_newline d @ CHR '']'' # r) = Some (map json_norm (y # ys), r)"
      by (rule read_elems_layout [OF ih fuel json_newline_ws])
    show ?thesis
      using m Cons el ct json_newline_ws [of "d + 1"]
      by (simp add: sep_join_Cons dropWhile_ws_prefix)
  qed
next
  case (4 kvs)
  obtain m where m: "n = Suc m" using "4.prems"(1) by (cases n) auto
  let ?kvs = "sort_key (\<lambda>kv. map byte (fst kv)) kvs"
  show ?case
  proof (cases ?kvs)
    case Nil
    then have "kvs = []" by (metis length_0_conv length_sort)
    then show ?thesis using m by simp
  next
    case (Cons y ys)
    have ne: "kvs \<noteq> []" using Cons by auto
    have ih: "\<forall>x \<in> set (y # ys). \<forall>n r. jsize (snd x) \<le> n \<longrightarrow> (r = [] \<or> \<not> is_digit (hd r)) \<longrightarrow>
                json_read_value n (json_layout (d + 1) (snd x) @ r) = Some (json_norm (snd x), r)"
      using "4.IH" Cons by (metis)
    have "sum_list (map (\<lambda>kv. Suc (jsize (snd kv))) ?kvs) \<le> m"
      using "4.prems"(1) m by (simp add: sum_list_sort_key)
    then have fuel: "sum_list (map (\<lambda>kv. Suc (jsize (snd kv))) (y # ys)) \<le> m" using Cons by simp
    have el: "json_read_members m (json_newline (d + 1) @
           (json_quote (fst y) @ '': '' @ json_layout (d + 1) (snd y)) @
           concat (map (\<lambda>z. (CHR '','' # json_newline (d + 1)) @ z)
             (map (\<lambda>kv. json_quote (fst kv) @ '': '' @ json_layout (d + 1) (snd kv)) ys)) @
           json_newline d @ CHR ''}'' # r) =
         Some (map (\<lambda>kv. (utf8_sanitize (fst kv), json_norm (snd kv))) (y # ys), r)"
      by (rule read_members_layout [OF ih fuel json_newline_ws])
    show ?thesis
      using m Cons ne el json_newline_ws [of "d + 1"]
      by (simp add: sep_join_Cons dropWhile_ws_prefix json_quote_def)
  qed
qed

subsection \<open>The length of the text is enough fuel\<close>

lemma length_concat_sep:
  assumes "sep \<noteq> []"
  shows "sum_list (map (\<lambda>z. Suc (length z)) ys) \<le> length (concat (map (\<lambda>z. sep @ z) ys))"
proof (induction ys)
  case Nil
  then show ?case by simp
next
  case (Cons y ys)
  have l: "1 \<le> length sep" using assms by (cases sep) auto
  have "length (concat (map (\<lambda>z. sep @ z) (y # ys))) =
        length sep + length y + length (concat (map (\<lambda>z. sep @ z) ys))" by simp
  moreover have "sum_list (map (\<lambda>z. Suc (length z)) (y # ys)) =
                 Suc (length y) + sum_list (map (\<lambda>z. Suc (length z)) ys)" by simp
  ultimately show ?case using Cons.IH l by linarith
qed

lemma length_sep_join:
  "sep \<noteq> [] \<Longrightarrow> sum_list (map (\<lambda>z. Suc (length z)) xs) \<le> Suc (length (sep_join sep xs))"
  using length_concat_sep [of sep "tl xs"] by (cases xs) (simp_all add: sep_join_def)

lemma json_newline_nonempty: "json_newline d \<noteq> []"
  by (simp add: json_newline_def)

lemma jsize_le_layout: "jsize v \<le> length (json_layout d v)"
proof (induction v arbitrary: d rule: json_marshal.induct)
  case (1 i)
  then show ?case by (simp add: fmt_d_def Suc_le_eq)
next
  case (2 s)
  then show ?case by (simp add: json_quote_def)
next
  case (3 vs)
  let ?L = "map (json_layout (d + 1)) vs"
  have "sum_list (map (\<lambda>v. Suc (jsize v)) vs) \<le> sum_list (map (\<lambda>v. Suc (length (json_layout (d + 1) v))) vs)"
    using "3.IH" by (intro sum_list_mono) simp
  also have "\<dots> = sum_list (map (\<lambda>z. Suc (length z)) ?L)" by (simp add: comp_def)
  also have "\<dots> \<le> Suc (length (sep_join (CHR '','' # json_newline (d + 1)) ?L))"
    by (rule length_sep_join) simp
  finally show ?case using json_newline_nonempty [of "d + 1"] by (cases "vs = []") auto
next
  case (4 kvs)
  let ?kvs = "sort_key (\<lambda>kv. map byte (fst kv)) kvs"
  let ?L = "map (\<lambda>kv. json_quote (fst kv) @ '': '' @ json_layout (d + 1) (snd kv)) ?kvs"
  have "sum_list (map (\<lambda>kv. Suc (jsize (snd kv))) kvs) = sum_list (map (\<lambda>kv. Suc (jsize (snd kv))) ?kvs)"
    by (simp only: sum_list_sort_key)
  also have "\<dots> \<le> sum_list (map (\<lambda>kv. Suc (length (json_quote (fst kv) @ '': '' @ json_layout (d + 1) (snd kv)))) ?kvs)"
    using "4.IH" by (intro sum_list_mono) (simp add: le_SucI trans_le_add2)
  also have "\<dots> = sum_list (map (\<lambda>z. Suc (length z)) ?L)" by (simp add: comp_def)
  also have "\<dots> \<le> Suc (length (sep_join (CHR '','' # json_newline (d + 1)) ?L))"
    by (rule length_sep_join) simp
  finally show ?case using json_newline_nonempty [of "d + 1"] by (cases "kvs = []") auto
qed

lemma json_marshal_indent_layout: "json_marshal_indent v = json_layout 0 v"
  using json_marshal_indent_gen [of 0 v "[]"] by (simp add: json_marshal_indent_def)

lemma json_read_marshal_indent: "json_read (json_marshal_indent v) = Some (json_norm v)"
  using read_value_layout [OF jsize_le_layout [of v 0], of "[]"]
  by (simp add: json_read_def json_marshal_indent_layout)

lemma utf8_sanitize_valid: "utf8_valid s \<Longrightarrow> utf8_sanitize s = s"
proof -
  assume "utf8_valid s"
  then have eq: "map (\<lambda>rb. if fst rb = rune_error \<and> length (snd rb) = 1 then utf8_encode rune_error
                       else snd rb) (runes s) = map snd (runes s)"
    by (auto simp: utf8_valid_def list_all_iff)
  show ?thesis by (simp only: utf8_sanitize_def eq concat_runes)
qed

lemma utf8_sanitize_ascii: "list_all (\<lambda>c. byte c < 128) s \<Longrightarrow> utf8_sanitize s = s"
  by (induction s) (simp_all add: utf8_sanitize_ascii_Cons)

lemma json_str_body_safe: "list_all html_safe s \<Longrightarrow> json_str_body s = s"
  by (induction s) (simp_all add: html_safe_def json_escape_ascii_def)

end
