(* ===== verification/Reporter.thy ===== *)
theory Reporter
  imports GoJson
begin

text \<open>
  The result reporter of \<^verbatim>\<open>src/internal/utils/output.go\<close>: the model-name
  sanitisation that \<open>SaveResultsToMD\<close> (lines 33--39) and \<open>SaveModelOutputs\<close>
  (lines 83--88) share, the Markdown file name, and \<open>SaveModelOutputs\<close> whole
  (lines 75--115): the archive path built with \<open>fmt\<close>'s \<open>%d\<close> and \<open>time\<close>'s
  layout \<open>2006-01-02_15-04-05\<close>, the map of lines 95--101, the bytes
  \<open>json.MarshalIndent\<close> makes of it (\<open>GoJson\<close>), and the three error paths.
  The file system is an input: the error \<open>os.MkdirAll\<close> returns and the error
  \<open>os.WriteFile\<close> returns (\<open>None\<close> for success); on success the result is the
  file name with the bytes written there. \<open>json.MarshalIndent\<close> fails on this
  data exactly when \<open>time.Time.MarshalJSON\<close> does, that is when the UTC year is
  outside \<open>[0, 9999]\<close>. A \<open>time.Time\<close> is the reading of its instant on the
  clock of its own location and on the UTC clock, and its nanosecond.
  \<open>filepath.Join(dir, name)\<close> is \<open>dir/name\<close> for a name with no separator
  that is not \<open>.\<close> or \<open>..\<close>, which the lemmas show of every archive name.
  The lemmas show where the archive goes, when it fails, and that its bytes
  read back as the map's five fields. The number formatting it uses is in
  \<open>GoFmt\<close>; the Markdown report and the console header are in
  \<open>MarkdownReport\<close>.
\<close>

section \<open>Definitions\<close>

definition sanitize_model_name :: "string \<Rightarrow> string" where
  "sanitize_model_name modelName =
     (let safeModelName = replace_all_char modelName (CHR ''/'') (CHR ''_'');
          safeModelName = replace_all_char safeModelName backslash (CHR ''_'');
          safeModelName = trim_space safeModelName
      in if safeModelName = [] then ''model'' else safeModelName)"

definition md_filename :: "string \<Rightarrow> string" where
  "md_filename modelName = ''API_Throughput_'' @ sanitize_model_name modelName @ ''.md''"

record civil_time =
  ct_year :: int
  ct_month :: int
  ct_day :: int
  ct_hour :: int
  ct_minute :: int
  ct_second :: int

record go_time =
  local_clock :: civil_time
  utc_clock :: civil_time
  go_nanosecond :: nat

text \<open>\<open>timestamp.Format("2006-01-02_15-04-05")\<close>, on the clock of the time's location.\<close>

definition format_timestamp :: "civil_time \<Rightarrow> string" where
  "format_timestamp t =
     append_int (ct_year t) 4 @ ''-'' @ append_int (ct_month t) 2 @ ''-'' @
     append_int (ct_day t) 2 @ ''_'' @ append_int (ct_hour t) 2 @ ''-'' @
     append_int (ct_minute t) 2 @ ''-'' @ append_int (ct_second t) 2"

text \<open>
  \<open>appendNano\<close> for \<open>.999999999\<close>: a dot and the nine digits of the
  nanoseconds without their trailing zeros, nothing when they are zero.
\<close>

definition frac_nano :: "nat \<Rightarrow> string" where
  "frac_nano ns =
     (if ns = 0 then []
      else (let b = CHR ''.'' # append_int (int ns) 9;
                b' = rev (dropWhile (\<lambda>c. c = CHR ''0'') (rev b))
            in if last b' = CHR ''.'' then butlast b' else b'))"

text \<open>
  \<open>time.Time.MarshalJSON\<close> of a time in UTC, without its quotes:
  \<open>appendFormatRFC3339\<close> with nanoseconds, the zone written \<open>Z\<close>.
\<close>

definition rfc3339_nano :: "civil_time \<Rightarrow> nat \<Rightarrow> string" where
  "rfc3339_nano t ns =
     append_int (ct_year t) 4 @ ''-'' @ append_int (ct_month t) 2 @ ''-'' @
     append_int (ct_day t) 2 @ ''T'' @ append_int (ct_hour t) 2 @ '':'' @
     append_int (ct_minute t) 2 @ '':'' @ append_int (ct_second t) 2 @ frac_nano ns @ ''Z''"

definition outputDir :: string where
  "outputDir = ''model_outputs''"

text \<open>The name passed to \<open>filepath.Join\<close> on line 92.\<close>

definition json_basename :: "string \<Rightarrow> go_int \<Rightarrow> civil_time \<Rightarrow> string" where
  "json_basename modelName concurrency t =
     sanitize_model_name modelName @ ''_concurrency_'' @ fmt_d concurrency @ ''_'' @
     format_timestamp t @ ''.json''"

definition join_path :: "string \<Rightarrow> string \<Rightarrow> string" where
  "join_path dir name = dir @ ''/'' @ name"

datatype persist_error =
    MkdirFailed string     \<comment> \<open>\<^verbatim>\<open>"failed to create output directory: %w"\<close>\<close>
  | MarshalFailed          \<comment> \<open>\<^verbatim>\<open>"failed to marshal JSON: %w"\<close>\<close>
  | WriteFailed string     \<comment> \<open>\<^verbatim>\<open>"failed to write output file: %w"\<close>\<close>

text \<open>The map marshalled on lines 95--101.\<close>

record output_archive =
  arc_model_name :: string
  arc_concurrency :: go_int
  arc_timestamp :: civil_time
  arc_nanosecond :: nat
  arc_outputs :: "string list"
  arc_count :: nat

definition marshal_ok :: "output_archive \<Rightarrow> bool" where
  "marshal_ok a \<longleftrightarrow> 0 \<le> ct_year (arc_timestamp a) \<and> ct_year (arc_timestamp a) \<le> 9999"

text \<open>
  The map as the encoder sees it, its entries in the order of the source. The
  time is written by its \<open>MarshalJSON\<close> as a quoted text whose bytes the
  encoder keeps, which is what it writes for the string itself
  (\<open>rfc3339_nano_quote\<close>).
\<close>

definition archive_value :: "output_archive \<Rightarrow> jvalue" where
  "archive_value a =
     JMap [(''model_name'', JStr (arc_model_name a)), (''concurrency'', JInt (arc_concurrency a)),
           (''timestamp'', JStr (rfc3339_nano (arc_timestamp a) (arc_nanosecond a))),
           (''outputs'', JArr (map JStr (arc_outputs a))),
           (''count'', JInt (int (arc_count a)))]"

text \<open>
  \<open>SaveModelOutputs\<close>: the error, or the file name it returns with the bytes
  \<open>os.WriteFile\<close> writes there.
\<close>

definition saveModelOutputs ::
  "string option \<Rightarrow> string option \<Rightarrow> string list \<Rightarrow> string \<Rightarrow> go_int \<Rightarrow> go_time \<Rightarrow>
   persist_error + string \<times> string" where
  "saveModelOutputs mkdirErr writeErr outputs modelName concurrency timestamp =
     (case mkdirErr of
        Some e \<Rightarrow> Inl (MkdirFailed e)
      | None \<Rightarrow>
          (let filename = join_path outputDir
                 (json_basename modelName concurrency (local_clock timestamp));
               data = \<lparr>arc_model_name = modelName, arc_concurrency = concurrency,
                       arc_timestamp = utc_clock timestamp, arc_nanosecond = go_nanosecond timestamp,
                       arc_outputs = outputs, arc_count = length outputs\<rparr>
           in if \<not> marshal_ok data then Inl MarshalFailed
              else (case writeErr of
                      Some e \<Rightarrow> Inl (WriteFailed e)
                    | None \<Rightarrow> Inr (filename, json_marshal_indent (archive_value data)))))"

text \<open>A time in a zone two hours ahead of UTC, just after midnight of a new year.\<close>

definition ex_new_year :: go_time where
  "ex_new_year =
     \<lparr>local_clock = \<lparr>ct_year = 2025, ct_month = 1, ct_day = 1, ct_hour = 1, ct_minute = 30,
                     ct_second = 0\<rparr>,
      utc_clock = \<lparr>ct_year = 2024, ct_month = 12, ct_day = 31, ct_hour = 23, ct_minute = 30,
                   ct_second = 0\<rparr>,
      go_nanosecond = 0\<rparr>"

declare sanitize_model_name_def [model_defs] md_filename_def [model_defs]
  format_timestamp_def [model_defs] frac_nano_def [model_defs] rfc3339_nano_def [model_defs]
  archive_value_def [model_defs]
  outputDir_def [model_defs] json_basename_def [model_defs] join_path_def [model_defs]
  marshal_ok_def [model_defs] saveModelOutputs_def [model_defs] ex_new_year_def [model_defs]

section \<open>Lemmas\<close>

lemma digit_chars_no_sep: "c \<in> set digit_chars \<Longrightarrow> c \<noteq> CHR ''/'' \<and> c \<noteq> backslash"
  by (auto simp: digit_chars_def backslash_def)

lemma format_timestamp_chars:
  "set (format_timestamp t) \<subseteq> {CHR ''-'', CHR ''_''} \<union> set digit_chars"
  using append_int_chars by (fastforce simp: format_timestamp_def)

lemma replace_all_char_not_old:
  "old \<noteq> new \<Longrightarrow> old \<notin> set (replace_all_char s old new)"
  by (auto simp: replace_all_char_def)

lemma set_replace_all_char:
  "set (replace_all_char s old new) \<subseteq> insert new (set s)"
  by (auto simp: replace_all_char_def)

lemma sanitize_no_sep:
  "CHR ''/'' \<notin> set (sanitize_model_name m) \<and> backslash \<notin> set (sanitize_model_name m)"
proof -
  let ?r1 = "replace_all_char m (CHR ''/'') (CHR ''_'')"
  let ?r2 = "replace_all_char ?r1 backslash (CHR ''_'')"
  have "CHR ''/'' \<notin> set ?r1" by (rule replace_all_char_not_old) simp
  then have "CHR ''/'' \<notin> set ?r2"
    using set_replace_all_char [of ?r1 backslash "CHR ''_''"] by auto
  moreover have "backslash \<notin> set ?r2"
    by (rule replace_all_char_not_old) (simp add: backslash_def)
  ultimately have "CHR ''/'' \<notin> set (trim_space ?r2) \<and> backslash \<notin> set (trim_space ?r2)"
    using set_trim_space [of ?r2] by auto
  then show ?thesis by (simp add: sanitize_model_name_def backslash_def Let_def)
qed

lemma json_basename_no_sep:
  "CHR ''/'' \<notin> set (json_basename m c t) \<and> backslash \<notin> set (json_basename m c t)"
  using sanitize_no_sep [of m] fmt_d_chars [of c] format_timestamp_chars [of t]
    digit_chars_no_sep
  by (auto simp: json_basename_def backslash_def)

lemma replace_all_char_id: "old \<notin> set s \<Longrightarrow> replace_all_char s old new = s"
  by (induction s) (auto simp: replace_all_char_def)

lemma frac_nano_chars: "set (frac_nano ns) \<subseteq> insert (CHR ''.'') (insert (CHR ''-'') (set digit_chars))"
proof (cases "ns = 0")
  case True
  then show ?thesis by (simp add: frac_nano_def)
next
  case False
  define b where "b = CHR ''.'' # append_int (int ns) 9"
  define X where "X = rev (dropWhile (\<lambda>c. c = CHR ''0'') (rev b))"
  have s0: "set b \<subseteq> insert (CHR ''.'') (insert (CHR ''-'') (set digit_chars))"
    using append_int_chars [of "int ns" 9] by (auto simp: b_def)
  have s1: "set X \<subseteq> set b" by (auto simp: X_def dest: set_dropWhileD)
  have s2: "set (butlast X) \<subseteq> set X" by (auto dest: in_set_butlastD)
  have "frac_nano ns = (if last X = CHR ''.'' then butlast X else X)"
    using False by (simp add: frac_nano_def X_def b_def Let_def)
  then show ?thesis using s0 s1 s2 by auto
qed

lemma rfc3339_nano_chars:
  "set (rfc3339_nano t ns) \<subseteq>
   set digit_chars \<union> {CHR ''-'', CHR ''T'', CHR '':'', CHR ''.'', CHR ''Z''}"
  using append_int_chars frac_nano_chars [of ns] by (fastforce simp: rfc3339_nano_def)

lemma rfc3339_nano_safe:
  "list_all html_safe (rfc3339_nano t ns) \<and> list_all (\<lambda>c. byte c < 128) (rfc3339_nano t ns)"
proof -
  have "\<forall>c \<in> set digit_chars \<union> {CHR ''-'', CHR ''T'', CHR '':'', CHR ''.'', CHR ''Z''}.
          html_safe c \<and> byte c < 128"
    by (simp add: digit_chars_def html_safe_def byte_def dquote_def backslash_def)
  then show ?thesis using rfc3339_nano_chars [of t ns] by (auto simp: list_all_iff)
qed

lemma rfc3339_nano_quote: "json_quote (rfc3339_nano t ns) = dquote # rfc3339_nano t ns @ [dquote]"
  by (simp add: json_quote_def json_str_body_safe rfc3339_nano_safe)

lemma archive_norm:
  "json_norm (archive_value a) =
   JMap [(''concurrency'', JInt (arc_concurrency a)), (''count'', JInt (int (arc_count a))),
         (''model_name'', JStr (utf8_sanitize (arc_model_name a))),
         (''outputs'', JArr (map (\<lambda>x. JStr (utf8_sanitize x)) (arc_outputs a))),
         (''timestamp'', JStr (rfc3339_nano (arc_timestamp a) (arc_nanosecond a)))]"
proof -
  have keys: "utf8_sanitize k = k" if "k \<in> {''concurrency'', ''count'', ''model_name'', ''outputs'', ''timestamp''}" for k
    using that by (auto intro!: utf8_sanitize_ascii simp: byte_def)
  have ts: "utf8_sanitize (rfc3339_nano (arc_timestamp a) (arc_nanosecond a)) = rfc3339_nano (arc_timestamp a) (arc_nanosecond a)"
    using rfc3339_nano_safe by (blast intro: utf8_sanitize_ascii)
  show ?thesis by (simp add: archive_value_def keys ts byte_def comp_def)
qed

lemma saveModelOutputs_Inr:
  "saveModelOutputs mk wr outs m c ts = Inr (fn, b) \<Longrightarrow>
   mk = None \<and> wr = None \<and> 0 \<le> ct_year (utc_clock ts) \<and> ct_year (utc_clock ts) \<le> 9999 \<and>
   fn = join_path outputDir (json_basename m c (local_clock ts)) \<and>
   b = json_marshal_indent (archive_value
         \<lparr>arc_model_name = m, arc_concurrency = c, arc_timestamp = utc_clock ts,
          arc_nanosecond = go_nanosecond ts, arc_outputs = outs, arc_count = length outs\<rparr>)"
  by (auto simp: saveModelOutputs_def Let_def marshal_ok_def split: option.splits if_splits)

lemma sanitize_model_name_idem:
  "sanitize_model_name (sanitize_model_name m) = sanitize_model_name m"
proof -
  let ?t = "sanitize_model_name m"
  have ns: "CHR ''/'' \<notin> set ?t" "backslash \<notin> set ?t" using sanitize_no_sep by blast+
  have r: "replace_all_char (replace_all_char ?t (CHR ''/'') (CHR ''_'')) backslash (CHR ''_'') = ?t"
    using ns by (simp add: replace_all_char_id)
  show ?thesis
  proof (cases "?t = ''model''")
    case True
    then show ?thesis by (simp add: model_defs)
  next
    case False
    then have t: "?t = trim_space (replace_all_char (replace_all_char m (CHR ''/'') (CHR ''_''))
                                    backslash (CHR ''_''))"
      and ne: "?t \<noteq> []"
      by (auto simp: sanitize_model_name_def Let_def split: if_splits)
    have "trim_space ?t = ?t" by (subst t, subst t) (simp add: trim_space_idem)
    with r ne show ?thesis by (simp add: sanitize_model_name_def [of ?t] Let_def)
  qed
qed

section \<open>Properties\<close>

text \<open>
  C18. The sanitised model name used in both report file names never contains a
  slash or a backslash and is never empty, a name that is empty or white space
  only becomes the placeholder \<open>model\<close>, and a sanitised name is left
  unchanged by a second sanitisation.
\<close>

theorem sanitize_model_name_safe:
  "CHR ''/'' \<notin> set (sanitize_model_name m) \<and> backslash \<notin> set (sanitize_model_name m) \<and>
   sanitize_model_name m \<noteq> [] \<and>
   (trim_space m = [] \<longrightarrow> sanitize_model_name m = ''model'') \<and>
   sanitize_model_name (sanitize_model_name m) = sanitize_model_name m"
proof -
  have blank: "trim_space m = [] \<Longrightarrow>
      trim_space (replace_all_char (replace_all_char m (CHR ''/'') (CHR ''_'')) backslash (CHR ''_'')) = []"
  proof -
    assume t: "trim_space m = []"
    have "CHR ''/'' \<notin> set m" "backslash \<notin> set m"
      using blank_bytes [OF t, of "CHR ''/''"] blank_bytes [OF t, of backslash]
      by (auto simp: is_space_def byte_def backslash_def)
    with t show ?thesis by (simp add: replace_all_char_id)
  qed
  have "sanitize_model_name m \<noteq> []" by (simp add: sanitize_model_name_def Let_def)
  with sanitize_no_sep [of m] blank sanitize_model_name_idem [of m] show ?thesis
    by (simp add: sanitize_model_name_def Let_def)
qed

theorem sanitize_model_name_safe_witness:
  "trim_space '' \<newline> '' = [] \<and> sanitize_model_name '' \<newline> '' = ''model'' \<and>
   CHR ''/'' \<notin> set (sanitize_model_name ''org/gpt'')"
  using sanitize_model_name_safe [of "'' \<newline> ''"] sanitize_model_name_safe [of "''org/gpt''"]
  by (simp add: model_defs)

text \<open>
  C19. Every archive \<open>SaveModelOutputs\<close> writes lands directly inside
  \<open>model_outputs\<close>: its path is \<open>model_outputs/\<close> followed by a name without
  slash or backslash that starts with the sanitised model name and ends in
  \<open>.json\<close>, so the model name cannot direct the file elsewhere.
\<close>

theorem saveModelOutputs_path:
  "saveModelOutputs mk wr outs m c ts = Inr (fn, b) \<Longrightarrow>
   \<exists>name. fn = ''model_outputs/'' @ name \<and>
     CHR ''/'' \<notin> set name \<and> backslash \<notin> set name \<and>
     take (length (sanitize_model_name m)) name = sanitize_model_name m \<and>
     drop (length name - 5) name = ''.json''"
proof -
  assume ok: "saveModelOutputs mk wr outs m c ts = Inr (fn, b)"
  let ?name = "json_basename m c (local_clock ts)"
  from saveModelOutputs_Inr [OF ok] have "fn = ''model_outputs/'' @ ?name"
    by (simp add: join_path_def outputDir_def)
  moreover have "drop (length ?name - 5) ?name = ''.json''"
  proof -
    obtain x where "?name = x @ ''.json''" by (simp add: json_basename_def)
    then show ?thesis by simp
  qed
  moreover have "take (length (sanitize_model_name m)) ?name = sanitize_model_name m"
    by (simp add: json_basename_def)
  ultimately show ?thesis using json_basename_no_sep by blast
qed

theorem saveModelOutputs_path_witness:
  "(\<exists>b. saveModelOutputs None None [''a''] ''../etc'' 8 ex_new_year =
     Inr (''model_outputs/.._etc_concurrency_8_2025-01-01_01-30-00.json'', b)) \<and>
   (\<exists>name. ''model_outputs/.._etc_concurrency_8_2025-01-01_01-30-00.json'' = ''model_outputs/'' @ name \<and>
     CHR ''/'' \<notin> set name \<and> backslash \<notin> set name \<and>
     take (length (sanitize_model_name ''../etc'')) name = sanitize_model_name ''../etc'' \<and>
     drop (length name - 5) name = ''.json'')"
proof -
  let ?b = "json_marshal_indent (archive_value
             \<lparr>arc_model_name = ''../etc'', arc_concurrency = 8, arc_timestamp = utc_clock ex_new_year,
              arc_nanosecond = 0, arc_outputs = [''a''], arc_count = 1\<rparr>)"
  have r: "saveModelOutputs None None [''a''] ''../etc'' 8 ex_new_year =
     Inr (''model_outputs/.._etc_concurrency_8_2025-01-01_01-30-00.json'', ?b)"
    by (simp add: model_defs del: json_marshal_indent_def archive_value_def)
  from r saveModelOutputs_path [OF r] show ?thesis by blast
qed

text \<open>
  C20. \<open>SaveModelOutputs\<close> fails exactly when the directory cannot be created,
  the UTC year of the timestamp is outside \<open>[0, 9999]\<close> (the JSON encoding of
  the time fails) or the file cannot be written, and it reports the first of
  these failures, with the underlying error where there is one.
\<close>

theorem saveModelOutputs_outcome:
  "(isl (saveModelOutputs mk wr outs m c ts) \<longleftrightarrow>
      mk \<noteq> None \<or> ct_year (utc_clock ts) < 0 \<or> 9999 < ct_year (utc_clock ts) \<or> wr \<noteq> None) \<and>
   (mk = Some e \<longrightarrow> saveModelOutputs mk wr outs m c ts = Inl (MkdirFailed e)) \<and>
   (mk = None \<and> (ct_year (utc_clock ts) < 0 \<or> 9999 < ct_year (utc_clock ts)) \<longrightarrow>
      saveModelOutputs mk wr outs m c ts = Inl MarshalFailed) \<and>
   (mk = None \<and> 0 \<le> ct_year (utc_clock ts) \<and> ct_year (utc_clock ts) \<le> 9999 \<and> wr = Some e \<longrightarrow>
      saveModelOutputs mk wr outs m c ts = Inl (WriteFailed e))"
  by (auto simp: saveModelOutputs_def Let_def marshal_ok_def split: option.splits)

theorem saveModelOutputs_outcome_witness:
  "saveModelOutputs (Some ''permission denied'') None [''x''] ''gpt'' 4 ex_new_year =
     Inl (MkdirFailed ''permission denied'') \<and>
   saveModelOutputs None None [''x''] ''gpt'' 4 (ex_new_year\<lparr>utc_clock := (utc_clock ex_new_year)\<lparr>ct_year := 10000\<rparr>\<rparr>) =
     Inl MarshalFailed \<and>
   saveModelOutputs None (Some ''disk full'') [''x''] ''gpt'' 4 ex_new_year = Inl (WriteFailed ''disk full'')"
proof -
  have y: "ct_year (utc_clock ex_new_year) = 2024" by (simp add: ex_new_year_def)
  show ?thesis
    using saveModelOutputs_outcome [of "Some ''permission denied''" None "[''x'']" "''gpt''" 4
        ex_new_year "''permission denied''"]
      saveModelOutputs_outcome [of None None "[''x'']" "''gpt''" 4
        "ex_new_year\<lparr>utc_clock := (utc_clock ex_new_year)\<lparr>ct_year := 10000\<rparr>\<rparr>"]
      saveModelOutputs_outcome [of None "Some ''disk full''" "[''x'']" "''gpt''" 4 ex_new_year "''disk full''"]
    by (simp add: y)
qed

text \<open>
  C24. The archive's file name is written on the clock of the timestamp's own
  location, not on the UTC clock the spec names: a successful call names the
  file by the sanitised model name, the concurrency and the local wall-clock
  time, and any other timestamp with the same local clock, whatever its UTC
  time, gives the same name, while the file holds the UTC time
  (\<open>saveModelOutputs_archive_roundtrip\<close>).
\<close>

theorem saveModelOutputs_local_name:
  "saveModelOutputs mk wr outs m c ts = Inr (fn, b) \<Longrightarrow>
   fn = ''model_outputs/'' @ sanitize_model_name m @ ''_concurrency_'' @ fmt_d c @ ''_'' @
          format_timestamp (local_clock ts) @ ''.json'' \<and>
   (\<forall>ts' :: go_time. local_clock ts' = local_clock ts \<longrightarrow>
      0 \<le> ct_year (utc_clock ts') \<longrightarrow> ct_year (utc_clock ts') \<le> 9999 \<longrightarrow>
      (\<exists>b'. saveModelOutputs mk wr outs m c ts' = Inr (fn, b')))"
proof -
  assume "saveModelOutputs mk wr outs m c ts = Inr (fn, b)"
  from saveModelOutputs_Inr [OF this] have mk: "mk = None" and wr: "wr = None"
    and fn: "fn = join_path outputDir (json_basename m c (local_clock ts))" by simp_all
  show ?thesis
  proof (intro conjI allI impI)
    show "fn = ''model_outputs/'' @ sanitize_model_name m @ ''_concurrency_'' @ fmt_d c @ ''_'' @
          format_timestamp (local_clock ts) @ ''.json''"
      by (simp add: fn join_path_def outputDir_def json_basename_def)
    fix ts' :: go_time
    assume "local_clock ts' = local_clock ts" "0 \<le> ct_year (utc_clock ts')" "ct_year (utc_clock ts') \<le> 9999"
    then show "\<exists>b'. saveModelOutputs mk wr outs m c ts' = Inr (fn, b')"
      by (simp add: saveModelOutputs_def mk wr fn Let_def marshal_ok_def)
  qed
qed

theorem saveModelOutputs_local_name_witness:
  "saveModelOutputs None None [''a''] ''org/gpt'' 8 ex_new_year =
     Inr (''model_outputs/org_gpt_concurrency_8_2025-01-01_01-30-00.json'',
          json_marshal_indent (archive_value
            \<lparr>arc_model_name = ''org/gpt'', arc_concurrency = 8, arc_timestamp = utc_clock ex_new_year,
             arc_nanosecond = 0, arc_outputs = [''a''], arc_count = 1\<rparr>)) \<and>
   ct_year (utc_clock ex_new_year) = 2024 \<and> ct_year (local_clock ex_new_year) = 2025 \<and>
   (\<exists>b'. saveModelOutputs None None [''a''] ''org/gpt'' 8
           (ex_new_year\<lparr>utc_clock := local_clock ex_new_year\<rparr>) =
         Inr (''model_outputs/org_gpt_concurrency_8_2025-01-01_01-30-00.json'', b'))"
proof -
  have r: "saveModelOutputs None None [''a''] ''org/gpt'' 8 ex_new_year =
     Inr (''model_outputs/org_gpt_concurrency_8_2025-01-01_01-30-00.json'',
          json_marshal_indent (archive_value
            \<lparr>arc_model_name = ''org/gpt'', arc_concurrency = 8, arc_timestamp = utc_clock ex_new_year,
             arc_nanosecond = 0, arc_outputs = [''a''], arc_count = 1\<rparr>))"
    by (simp add: model_defs del: json_marshal_indent_def archive_value_def)
  have y: "ct_year (utc_clock ex_new_year) = 2024" "ct_year (local_clock ex_new_year) = 2025"
    by (simp_all add: ex_new_year_def)
  from saveModelOutputs_local_name [OF r] r y show ?thesis by simp
qed

text \<open>
  C32. The archive file reads back as the JSON object of the five fields the
  source puts in its map, in sorted key order: the concurrency, the count of
  outputs, the model name, the outputs in order and the UTC timestamp in
  RFC 3339 with nanoseconds; every string is kept byte for byte, except that a
  byte that is not valid UTF-8 comes back as U+FFFD (\<open>utf8_sanitize\<close>, the
  identity on valid UTF-8).
\<close>

theorem saveModelOutputs_archive_roundtrip:
  "saveModelOutputs mk wr outs m c ts = Inr (fn, b) \<Longrightarrow>
   json_read b =
     Some (JMap [(''concurrency'', JInt c), (''count'', JInt (int (length outs))),
                 (''model_name'', JStr (utf8_sanitize m)),
                 (''outputs'', JArr (map (\<lambda>x. JStr (utf8_sanitize x)) outs)),
                 (''timestamp'', JStr (rfc3339_nano (utc_clock ts) (go_nanosecond ts)))])"
  by (drule saveModelOutputs_Inr) (simp add: json_read_marshal_indent archive_norm)

theorem saveModelOutputs_archive_roundtrip_witness:
  "json_read (json_marshal_indent (archive_value
      \<lparr>arc_model_name = ''org/gpt'', arc_concurrency = 8, arc_timestamp = utc_clock ex_new_year,
       arc_nanosecond = 120000000, arc_outputs = [''ok'', [CHR 0xFF]], arc_count = 2\<rparr>)) =
     Some (JMap [(''concurrency'', JInt 8), (''count'', JInt 2),
                 (''model_name'', JStr (utf8_sanitize ''org/gpt'')),
                 (''outputs'', JArr (map (\<lambda>x. JStr (utf8_sanitize x)) [''ok'', [CHR 0xFF]])),
                 (''timestamp'', JStr (rfc3339_nano (utc_clock ex_new_year) 120000000))]) \<and>
   map byte (utf8_sanitize [CHR 0xFF]) = [239, 191, 189] \<and>
   rfc3339_nano (utc_clock ex_new_year) 120000000 = ''2024-12-31T23:30:00.12Z''"
proof -
  let ?ts = "ex_new_year\<lparr>go_nanosecond := 120000000\<rparr>"
  let ?a = "\<lparr>arc_model_name = ''org/gpt'', arc_concurrency = 8, arc_timestamp = utc_clock ex_new_year,
             arc_nanosecond = 120000000, arc_outputs = [''ok'', [CHR 0xFF]], arc_count = 2\<rparr>"
  have r: "saveModelOutputs None None [''ok'', [CHR 0xFF]] ''org/gpt'' 8 ?ts =
     Inr (''model_outputs/org_gpt_concurrency_8_2025-01-01_01-30-00.json'', json_marshal_indent (archive_value ?a))"
    by (simp add: model_defs numeral_2_eq_2 del: json_marshal_indent_def archive_value_def)
  have "map byte (utf8_sanitize [CHR 0xFF]) = [239, 191, 189]"
    by (simp add: model_defs utf8_encode_def valid_rune_def byte_char_of)
  moreover have "rfc3339_nano (utc_clock ex_new_year) 120000000 = ''2024-12-31T23:30:00.12Z''"
    by (simp add: ex_new_year_def rfc3339_nano_def append_int_def frac_nano_def nat_digits.simps
        digit_chars_def)
  ultimately show ?thesis using saveModelOutputs_archive_roundtrip [OF r] by simp
qed

end
