(* ===== verification/MarkdownReport.thy ===== *)
theory MarkdownReport
  imports Reporter
begin

text \<open>
  The console header and the Markdown report of
  \<^verbatim>\<open>src/internal/utils/output.go\<close>: \<open>PrintBenchmarkHeader\<close> (lines 14--28),
  the text it prints for a UTC reading of the clock, and \<open>SaveResultsToMD\<close>
  (lines 31--71). The rows of the report are \<open>[][]interface{}\<close>: an
  interface value is \<open>iface\<close>, the dynamic types the function asserts (\<open>int\<close>
  and \<open>float64\<close>) and any other; an index out of range and a failed type
  assertion are the run-time panics of \<open>md_panic\<close>. The file system is an
  input: the error of \<open>os.Create\<close>, and for each \<open>WriteString\<close> call, by its
  position, whether it succeeds (the source ignores the result). The effects
  are the record \<open>md_effects\<close>: the file created and the bytes it holds, what
  is printed on standard output and on the log, and the panic, if any.
  The lemmas and properties cover the file written on success and on each
  error path, the alignment of the table, and the range of the printed
  success-rate percentage.
\<close>

section \<open>Definitions\<close>

abbreviation nl :: char where "nl \<equiv> CHR 0x0A"

definition tab :: char where "tab = CHR 0x09"

subsection \<open>PrintBenchmarkHeader\<close>

definition banner_rule :: string where
  "banner_rule = replicate 112 (CHR ''#'')"

text \<open>
  The bytes the source holds between \<open>Time\<close> and \<open>%s\<close> on line 20: the UTF-8
  encoding of the characters U+00EF U+00BC U+0161, which is what the UTF-8
  bytes \<open>EF BC 9A\<close> of the fullwidth colon U+FF1A become when read as
  Windows-1252 and encoded again.
\<close>

definition time_label_sep :: string where
  "time_label_sep = [CHR 0xC3, CHR 0xAF, CHR 0xC2, CHR 0xBC, CHR 0xC5, CHR 0xA1]"

text \<open>The raw string literal \<open>banner\<close> of lines 16--21, split at its only verb \<open>%s\<close>.\<close>

definition banner_head :: string where
  "banner_head =
     [nl] @ banner_rule @ [nl] @
     replicate 4 tab @ replicate 10 (CHR '' '') @ ''LLM API Throughput Benchmark'' @ [nl] @
     replicate 4 tab @ replicate 4 (CHR '' '') @ ''https://github.com/Yoosu-L/llmapibenchmark'' @ [nl] @
     replicate 5 tab @ '' Time'' @ time_label_sep"

definition banner_tail :: string where
  "banner_tail = [nl] @ banner_rule"

text \<open>\<open>Format("2006-01-02 15:04:05 UTC+0")\<close>; \<open>UTC+0\<close> is not a layout element.\<close>

definition format_banner_time :: "civil_time \<Rightarrow> string" where
  "format_banner_time t =
     append_int (ct_year t) 4 @ ''-'' @ append_int (ct_month t) 2 @ ''-'' @
     append_int (ct_day t) 2 @ '' '' @ append_int (ct_hour t) 2 @ '':'' @
     append_int (ct_minute t) 2 @ '':'' @ append_int (ct_second t) 2 @ '' UTC+0''"

text \<open>The four metadata lines both reports print (lines 24--27 and 47--50).\<close>

definition metadata_lines :: "string \<Rightarrow> go_int \<Rightarrow> go_int \<Rightarrow> f64 \<Rightarrow> string" where
  "metadata_lines modelName inputTokens maxTokens latency =
     ''Input Tokens: '' @ fmt_d inputTokens @ [nl] @
     ''Output Tokens: '' @ fmt_d maxTokens @ [nl] @
     ''Test Model: '' @ modelName @ [nl] @
     ''Latency: '' @ fmt_f2 latency @ '' ms'' @ [nl]"

definition printBenchmarkHeader :: "string \<Rightarrow> go_int \<Rightarrow> go_int \<Rightarrow> f64 \<Rightarrow> go_time \<Rightarrow> string" where
  "printBenchmarkHeader modelName inputTokens maxTokens latency now =
     banner_head @ format_banner_time (utc_clock now) @ banner_tail @ [nl] @
     ''Input Tokens: '' @ fmt_d inputTokens @ [nl] @
     ''Output Tokens: '' @ fmt_d maxTokens @ [nl] @
     ''Test Model: '' @ modelName @ [nl] @
     ''Latency: '' @ fmt_f2 latency @ '' ms'' @ [nl, nl]"

subsection \<open>SaveResultsToMD\<close>

datatype iface = IInt go_int | IFloat f64 | IOther string

datatype md_panic =
    IndexOutOfRange nat nat      \<comment> \<open>\<^verbatim>\<open>index out of range [i] with length n\<close>\<close>
  | BadTypeAssertion nat string  \<comment> \<open>\<^verbatim>\<open>interface conversion\<close> at index \<open>i\<close> to the type named\<close>

definition row_int :: "iface list \<Rightarrow> nat \<Rightarrow> md_panic + go_int" where
  "row_int r i =
     (if i < length r then (case r ! i of IInt v \<Rightarrow> Inr v | _ \<Rightarrow> Inl (BadTypeAssertion i ''int''))
      else Inl (IndexOutOfRange i (length r)))"

definition row_float :: "iface list \<Rightarrow> nat \<Rightarrow> md_panic + f64" where
  "row_float r i =
     (if i < length r then (case r ! i of IFloat v \<Rightarrow> Inr v | _ \<Rightarrow> Inl (BadTypeAssertion i ''float64''))
      else Inl (IndexOutOfRange i (length r)))"

record md_row =
  row_concurrency :: go_int
  row_generationSpeed :: f64
  row_promptThroughput :: f64
  row_minTTFT :: f64
  row_maxTTFT :: f64
  row_successRate :: f64

text \<open>Lines 55--60, in order: the first failing index or assertion panics.\<close>

definition decode_row :: "iface list \<Rightarrow> md_panic + md_row" where
  "decode_row r =
     (case row_int r 0 of Inl p \<Rightarrow> Inl p | Inr concurrency \<Rightarrow>
      case row_float r 1 of Inl p \<Rightarrow> Inl p | Inr generationSpeed \<Rightarrow>
      case row_float r 2 of Inl p \<Rightarrow> Inl p | Inr promptThroughput \<Rightarrow>
      case row_float r 3 of Inl p \<Rightarrow> Inl p | Inr minTTFT \<Rightarrow>
      case row_float r 4 of Inl p \<Rightarrow> Inl p | Inr maxTTFT \<Rightarrow>
      case row_float r 5 of Inl p \<Rightarrow> Inl p | Inr successRate \<Rightarrow>
        Inr \<lparr>row_concurrency = concurrency, row_generationSpeed = generationSpeed,
             row_promptThroughput = promptThroughput, row_minTTFT = minTTFT,
             row_maxTTFT = maxTTFT, row_successRate = successRate\<rparr>)"

text \<open>Line 61: \<open>"| %11d | %32.2f | %29.2f | %12.2f | %12.2f | %11.2f%% |\n"\<close>.\<close>

definition format_row :: "md_row \<Rightarrow> string" where
  "format_row row =
     ''| '' @ pad_left 11 (fmt_d (row_concurrency row)) @
     '' | '' @ pad_left 32 (fmt_f2 (row_generationSpeed row)) @
     '' | '' @ pad_left 29 (fmt_f2 (row_promptThroughput row)) @
     '' | '' @ pad_left 12 (fmt_f2 (row_minTTFT row)) @
     '' | '' @ pad_left 12 (fmt_f2 (row_maxTTFT row)) @
     '' | '' @ pad_left 11 (fmt_f2 (f64_mul (row_successRate row) f64_hundred)) @
     ''% |'' @ [nl]"

definition md_table_header :: string where
  "md_table_header =
     ''| Concurrency | Generation Throughput (tokens/s) |  Prompt Throughput (tokens/s) | Min TTFT (s) | Max TTFT (s) | Success Rate |''
     @ [nl]"

definition md_table_rule :: string where
  "md_table_rule =
     ''|'' @ replicate 13 (CHR ''-'') @ ''|'' @ replicate 34 (CHR ''-'') @ ''|'' @
     replicate 31 (CHR ''-'') @ ''|'' @ replicate 14 (CHR ''-'') @ ''|'' @
     replicate 14 (CHR ''-'') @ ''|'' @ replicate 14 (CHR ''-'') @ ''|'' @ [nl]"

definition md_fence :: string where "md_fence = ''```''"

text \<open>The \<open>WriteString\<close> calls of lines 47--52, in order.\<close>

definition md_preamble :: "string \<Rightarrow> go_int \<Rightarrow> go_int \<Rightarrow> f64 \<Rightarrow> string list" where
  "md_preamble modelName inputTokens maxTokens latency =
     [md_fence @ [nl] @ ''Input Tokens: '' @ fmt_d inputTokens @ [nl],
      ''Output Tokens: '' @ fmt_d maxTokens @ [nl],
      ''Test Model: '' @ modelName @ [nl],
      ''Latency: '' @ fmt_f2 latency @ '' ms'' @ [nl] @ md_fence @ [nl, nl],
      md_table_header,
      md_table_rule]"

text \<open>The loop of lines 54--68: the rows written before the first malformed one.\<close>

fun write_rows :: "iface list list \<Rightarrow> string list \<times> md_panic option" where
  "write_rows [] = ([], None)"
| "write_rows (r # rs) =
     (case decode_row r of
        Inl p \<Rightarrow> ([], Some p)
      | Inr row \<Rightarrow> (let (ws, p) = write_rows rs in (format_row row # ws, p)))"

text \<open>What the file holds after the \<open>WriteString\<close> calls \<open>ws\<close>, call \<open>i\<close> succeeding when \<open>ok i\<close>.\<close>

fun file_content :: "(nat \<Rightarrow> bool) \<Rightarrow> nat \<Rightarrow> string list \<Rightarrow> string" where
  "file_content ok i [] = []"
| "file_content ok i (w # ws) = (if ok i then w else []) @ file_content ok (Suc i) ws"

record md_effects =
  md_file :: "(string \<times> string) option"
  md_stdout :: string
  md_log :: "string list"
  md_panicked :: "md_panic option"

definition saveResultsToMD ::
  "string option \<Rightarrow> (nat \<Rightarrow> bool) \<Rightarrow> iface list list \<Rightarrow> string \<Rightarrow> go_int \<Rightarrow> go_int \<Rightarrow> f64 \<Rightarrow>
   md_effects" where
  "saveResultsToMD createErr write_ok results modelName inputTokens maxTokens latency =
     (let filename = md_filename modelName
      in case createErr of
           Some e \<Rightarrow> \<lparr>md_file = None, md_stdout = [], md_log = [''Error creating file: '' @ e],
                      md_panicked = None\<rparr>
         | None \<Rightarrow>
             (let (rows, p) = write_rows results;
                  ws = md_preamble modelName inputTokens maxTokens latency @ rows
              in \<lparr>md_file = Some (filename, file_content write_ok 0 ws),
                  md_stdout = (case p of None \<Rightarrow> ''Results saved to: '' @ filename @ [nl, nl]
                                        | Some _ \<Rightarrow> []),
                  md_log = [], md_panicked = p\<rparr>))"

text \<open>The columns fit: each formatted value is no wider than its field.\<close>

definition row_fits :: "md_row \<Rightarrow> bool" where
  "row_fits row \<longleftrightarrow>
     length (fmt_d (row_concurrency row)) \<le> 11 \<and>
     length (fmt_f2 (row_generationSpeed row)) \<le> 32 \<and>
     length (fmt_f2 (row_promptThroughput row)) \<le> 29 \<and>
     length (fmt_f2 (row_minTTFT row)) \<le> 12 \<and>
     length (fmt_f2 (row_maxTTFT row)) \<le> 12 \<and>
     length (fmt_f2 (f64_mul (row_successRate row) f64_hundred)) \<le> 11"

declare tab_def [model_defs] banner_rule_def [model_defs] time_label_sep_def [model_defs]
  banner_head_def [model_defs] banner_tail_def [model_defs] format_banner_time_def [model_defs]
  printBenchmarkHeader_def [model_defs] row_int_def [model_defs] row_float_def [model_defs]
  decode_row_def [model_defs] format_row_def [model_defs] md_table_header_def [model_defs]
  md_table_rule_def [model_defs] md_fence_def [model_defs] md_preamble_def [model_defs]
  saveResultsToMD_def [model_defs] row_fits_def [model_defs] metadata_lines_def [model_defs]

text \<open>Example doubles: \<open>0.5\<close>, \<open>1\<close> and \<open>12.5\<close>, and a result row built from them.\<close>

definition ex_half :: f64 where
  "ex_half = \<lparr>f64_sign = False, f64_exp = 1022, f64_frac = 0\<rparr>"

definition ex_one :: f64 where
  "ex_one = \<lparr>f64_sign = False, f64_exp = 1023, f64_frac = 0\<rparr>"

definition ex_twelve_half :: f64 where
  "ex_twelve_half = \<lparr>f64_sign = False, f64_exp = 1026, f64_frac = 2533274790395904\<rparr>"

definition ex_result :: "iface list" where
  "ex_result = [IInt 8, IFloat ex_twelve_half, IFloat f64_hundred, IFloat ex_half, IFloat ex_one,
                IFloat ex_one]"

definition ex_md_row :: md_row where
  "ex_md_row = \<lparr>row_concurrency = 8, row_generationSpeed = ex_twelve_half,
                row_promptThroughput = f64_hundred, row_minTTFT = ex_half, row_maxTTFT = ex_one,
                row_successRate = ex_one\<rparr>"

declare ex_half_def [model_defs] ex_one_def [model_defs] ex_twelve_half_def [model_defs]
  ex_result_def [model_defs] ex_md_row_def [model_defs]

section \<open>Lemmas\<close>


lemma bar_not_in_fmt_d: "CHR ''|'' \<notin> set (fmt_d i)"
  using fmt_d_chars [of i] by (auto simp: digit_chars_def)

lemma bar_not_in_fmt_f2: "CHR ''|'' \<notin> set (fmt_f2 x)"
  using set_fmt_f2 [of x] by (auto simp: digit_chars_def)

lemma map_bar_field_d:
  "length (fmt_d i) \<le> w \<Longrightarrow> map (\<lambda>c. c = CHR ''|'') (pad_left w (fmt_d i)) = replicate w False"
  by (rule map_pad_left) (simp_all add: bar_not_in_fmt_d)

lemma map_bar_field_f2:
  "length (fmt_f2 x) \<le> w \<Longrightarrow> map (\<lambda>c. c = CHR ''|'') (pad_left w (fmt_f2 x)) = replicate w False"
  by (rule map_pad_left) (simp_all add: bar_not_in_fmt_f2)

lemma format_row_aligned:
  "row_fits row \<Longrightarrow>
   map (\<lambda>c. c = CHR ''|'') (format_row row) = map (\<lambda>c. c = CHR ''|'') md_table_header"
  by (simp add: row_fits_def format_row_def md_table_header_def map_bar_field_d map_bar_field_f2
      numeral_eq_Suc)


lemma write_rows_ok:
  "map decode_row results = map Inr rows \<Longrightarrow> write_rows results = (map format_row rows, None)"
proof (induction results arbitrary: rows)
  case Nil
  then show ?case by simp
next
  case (Cons r results)
  then obtain row rows' where "rows = row # rows'" by (cases rows) auto
  with Cons show ?case by simp
qed

lemma write_rows_panic:
  "map decode_row good = map Inr rows \<Longrightarrow> decode_row bad = Inl p \<Longrightarrow>
   write_rows (good @ bad # rest) = (map format_row rows, Some p)"
proof (induction good arbitrary: rows)
  case Nil
  then show ?case by simp
next
  case (Cons r good)
  then obtain row rows' where "rows = row # rows'" by (cases rows) auto
  with Cons show ?case by simp
qed

lemma file_content_all_ok [simp]: "file_content (\<lambda>_. True) i ws = concat ws"
  by (induction ws arbitrary: i) simp_all

lemma saveResultsToMD_created:
  "write_rows results = (rows, p) \<Longrightarrow>
   saveResultsToMD None ok results m inputTokens maxTokens latency =
     \<lparr>md_file = Some (md_filename m, file_content ok 0 (md_preamble m inputTokens maxTokens latency @ rows)),
      md_stdout = (case p of None \<Rightarrow> ''Results saved to: '' @ md_filename m @ [nl, nl]
                           | Some _ \<Rightarrow> []),
      md_log = [], md_panicked = p\<rparr>"
  by (simp add: saveResultsToMD_def Let_def)

lemma banner_time_label:
  "CHR 0xEF \<notin> set banner_head \<and> CHR 0x9A \<notin> set banner_head \<and>
   drop (length banner_head - 11) banner_head = '' Time'' @ time_label_sep"
  by (simp add: banner_head_def banner_rule_def tab_def time_label_sep_def)

lemma f64_hundred_val: "f64_valof f64_hundred = 100 \<and> f64_is_finite f64_hundred \<and> \<not> f64_sign f64_hundred"
proof -
  have sig: "real (f64_sig f64_hundred) = 100 * 2 powi 46"
    by (simp add: f64_hundred_def f64_sig_def)
  have sc: "f64_scale f64_hundred = - 46" by (simp add: f64_hundred_def f64_scale_def)
  have "f64_valof f64_hundred = 100 * (2 powi 46 * 2 powi (- 46))"
    by (simp only: f64_valof_def sig sc) (simp add: f64_hundred_def)
  then show ?thesis by (simp only: powi2_cancel) (simp add: f64_hundred_def f64_is_finite_def)
qed

section \<open>Properties\<close>

text \<open>
  C25. When the file is created and written and every result row holds an
  \<open>int\<close> and five \<open>float64\<close> values, \<open>SaveResultsToMD\<close> writes
  \<open>API_Throughput_<sanitized model>.md\<close> holding the metadata block, the table
  header and rule and one formatted line per row, in order, and reports the
  file name.
\<close>

theorem saveResultsToMD_success:
  "map decode_row results = map Inr rows \<Longrightarrow>
   saveResultsToMD None (\<lambda>_. True) results m inputTokens maxTokens latency =
     \<lparr>md_file = Some (md_filename m, concat (md_preamble m inputTokens maxTokens latency) @ concat (map format_row rows)),
      md_stdout = ''Results saved to: '' @ md_filename m @ [nl, nl], md_log = [],
      md_panicked = None\<rparr>"
  by (simp add: saveResultsToMD_created [OF write_rows_ok])

theorem saveResultsToMD_success_witness:
  "map decode_row [ex_result] = map Inr [ex_md_row] \<and>
   md_file (saveResultsToMD None (\<lambda>_. True) [ex_result] ''org/gpt'' 100 200 ex_half) =
     Some (''API_Throughput_org_gpt.md'',
           concat (md_preamble ''org/gpt'' 100 200 ex_half) @ format_row ex_md_row)"
  using saveResultsToMD_success [of "[ex_result]" "[ex_md_row]" "''org/gpt''" 100 200 ex_half]
  by (simp add: model_defs)


text \<open>
  C26. A result row that is too short or holds a value of another dynamic type
  makes \<open>SaveResultsToMD\<close> panic at that row: the file keeps the metadata block
  and the rows before it, and nothing is reported on standard output. The
  spec says nothing of malformed rows.
\<close>

theorem saveResultsToMD_malformed_row:
  "map decode_row good = map Inr rows \<Longrightarrow> decode_row bad = Inl p \<Longrightarrow>
   saveResultsToMD None (\<lambda>_. True) (good @ bad # rest) m inputTokens maxTokens latency =
     \<lparr>md_file = Some (md_filename m, concat (md_preamble m inputTokens maxTokens latency) @ concat (map format_row rows)),
      md_stdout = [], md_log = [], md_panicked = Some p\<rparr>"
  by (simp add: saveResultsToMD_created [OF write_rows_panic])

theorem saveResultsToMD_malformed_row_witness:
  "map decode_row [ex_result] = map Inr [ex_md_row] \<and>
   decode_row [IInt 8, IInt 12] = Inl (BadTypeAssertion 1 ''float64'') \<and>
   md_panicked (saveResultsToMD None (\<lambda>_. True) [ex_result, [IInt 8, IInt 12]] ''m'' 1 2 ex_half) =
     Some (BadTypeAssertion 1 ''float64'')"
  using saveResultsToMD_malformed_row [of "[ex_result]" "[ex_md_row]" "[IInt 8, IInt 12]"
      "BadTypeAssertion 1 ''float64''" "[]" "''m''" 1 2 ex_half]
  by (simp add: model_defs)


text \<open>
  C27. \<open>SaveResultsToMD\<close> ignores the result of every \<open>WriteString\<close>: whatever
  writes fail, once the file is created and the rows are well typed it logs
  nothing and prints \<open>Results saved to\<close>, where the spec says a file write
  failure is logged.
\<close>

theorem saveResultsToMD_write_errors_unreported:
  "map decode_row results = map Inr rows \<Longrightarrow>
   md_stdout (saveResultsToMD None ok results m inputTokens maxTokens latency) = ''Results saved to: '' @ md_filename m @ [nl, nl] \<and>
   md_log (saveResultsToMD None ok results m inputTokens maxTokens latency) = [] \<and>
   md_panicked (saveResultsToMD None ok results m inputTokens maxTokens latency) = None"
  by (simp add: saveResultsToMD_created [OF write_rows_ok])

theorem saveResultsToMD_write_errors_unreported_witness:
  "map decode_row [ex_result] = map Inr [ex_md_row] \<and>
   md_stdout (saveResultsToMD None (\<lambda>_. False) [ex_result] ''m'' 1 2 ex_half) =
     ''Results saved to: API_Throughput_m.md'' @ [nl, nl] \<and>
   md_file (saveResultsToMD None (\<lambda>_. False) [ex_result] ''m'' 1 2 ex_half) =
     Some (''API_Throughput_m.md'', [])"
  using saveResultsToMD_write_errors_unreported [of "[ex_result]" "[ex_md_row]" "\<lambda>_. False"
      "''m''" 1 2 ex_half]
  by (simp add: model_defs)


text \<open>
  C28. The Markdown table is well formed: every row whose values fit their
  columns has exactly the length of the header line, with its column
  separators at the same positions.
\<close>

theorem format_row_table_aligned:
  "row_fits row \<Longrightarrow>
   map (\<lambda>c. c = CHR ''|'') (format_row row) = map (\<lambda>c. c = CHR ''|'') md_table_header"
  by (rule format_row_aligned)

theorem format_row_table_aligned_witness:
  "row_fits ex_md_row \<and>
   map (\<lambda>c. c = CHR ''|'') (format_row ex_md_row) = map (\<lambda>c. c = CHR ''|'') md_table_header"
  using format_row_table_aligned [of ex_md_row] by (simp add: model_defs)


text \<open>
  C29. The console header and the Markdown file print the same metadata: the
  header ends with the four metadata lines and a blank line, and the file
  starts with the same four lines in a code fence, before the table header.
\<close>

theorem header_md_metadata_agree:
  "\<exists>pre. printBenchmarkHeader m inputTokens maxTokens latency t = pre @ metadata_lines m inputTokens maxTokens latency @ [nl] \<and>
     concat (md_preamble m inputTokens maxTokens latency) =
       md_fence @ [nl] @ metadata_lines m inputTokens maxTokens latency @ md_fence @ [nl, nl] @ md_table_header @ md_table_rule"
  by (simp add: printBenchmarkHeader_def md_preamble_def metadata_lines_def)


text \<open>
  \<open>%.2f\<close> of \<open>successRate*100\<close> for a finite, non-negative success rate of at
  most 1: an unsigned \<open>d.dd\<close> number of at most 10000 hundredths, within half a
  hundredth (and the product's rounding error) of the rate times 10000.
\<close>

lemma success_rate_fmt:
  assumes fin: "f64_is_finite r" and pos: "\<not> f64_sign r" and le1: "f64_valof r \<le> 1"
  shows "\<exists>h \<le> 10000. fmt_f2 (f64_mul r f64_hundred) = fixed2 h \<and>
           \<bar>real h - 10000 * f64_valof r\<bar> \<le> 1 / 2 + 2 powi (- 39)"
proof -
  let ?p = "f64_mul r f64_hundred"
  let ?N = "f64_sig r * f64_sig f64_hundred" and ?E = "f64_scale r + f64_scale f64_hundred"
  have H: "f64_valof f64_hundred = 100" "f64_is_finite f64_hundred" "\<not> f64_sign f64_hundred"
    using f64_hundred_val by auto
  have sp: "\<not> f64_is_nan r" "\<not> f64_is_inf r" "\<not> f64_is_nan f64_hundred" "\<not> f64_is_inf f64_hundred"
    using fin H(2) by (simp_all add: f64_is_finite_def f64_is_nan_def f64_is_inf_def)
  have p: "?p = f64_round False ?N ?E"
    using sp pos H(3) by (simp add: f64_mul_def Let_def)
  have "real ?N * 2 powi ?E = f64_valof r * f64_valof f64_hundred"
    using pos H(3) by (simp add: f64_valof_mul_exact)
  also have "\<dots> \<le> 100" using le1 H(1) by simp
  also have "(100::real) < 2 powi 7" by simp
  finally have small: "f64_is_finite ?p \<and> f64_scale ?p \<le> -45"
    using f64_round_small [of ?N ?E 7 False] by (simp add: p)
  have ulp: "(2::real) powi f64_scale ?p / 2 \<le> 2 powi (- 46)"
  proof -
    have "(2::real) powi f64_scale ?p \<le> 2 powi (-45)" using small by (simp only: powi2_le_iff)
    also have "(2::real) powi (-45) = 2 * 2 powi (- 46)"
      using power_int_add [of "2::real" 1 "- 46"] by simp
    finally show ?thesis by simp
  qed
  have mul: "\<bar>f64_valof ?p - f64_valof r * 100\<bar> \<le> 2 powi (- 46)"
    using f64_mul_correct [OF fin H(2)] small ulp H(1) by fastforce
  have c39: "(2::real) powi (- 39) = 128 * 2 powi (- 46)"
    using power_int_add [of "2::real" 7 "- 46"] by simp
  have half: "(2::real) powi (- 39) < 1 / 2"
  proof -
    have "(2::real) powi (- 39) < 2 powi (- 1)" by simp
    then show ?thesis by (simp add: power_int_minus)
  qed
  have sgn: "\<not> f64_sign ?p" using f64_round_sign [of False ?N ?E] small by (simp add: p)
  have spp: "\<not> f64_is_nan ?p \<and> \<not> f64_is_inf ?p" using small by (simp add: f64_finite_not_special)
  let ?h = "f64_hundredths ?p"
  have fmt: "fmt_f2 ?p = fixed2 ?h" using spp sgn by (simp add: fmt_f2_def)
  have hv: "\<bar>real ?h - 100 * f64_valof ?p\<bar> \<le> 1 / 2"
    using f64_hundredths_error [of ?p] sgn by (simp add: f64_valof_def mult.assoc)
  have err: "\<bar>real ?h - 10000 * f64_valof r\<bar> \<le> 1 / 2 + 2 powi (- 39)"
  proof -
    have "0 \<le> (2::real) powi (- 46)" by simp
    with hv mul c39 show ?thesis unfolding abs_le_iff by linarith
  qed
  have "real ?h < 10001" using err le1 half unfolding abs_le_iff by linarith
  then have "?h \<le> 10000" by simp
  with fmt err show ?thesis by blast
qed

lemma length_nat_digits_le: "n < 10 ^ k \<Longrightarrow> 0 < k \<Longrightarrow> length (nat_digits n) \<le> k"
proof (induction n arbitrary: k rule: nat_digits.induct)
  case (1 n)
  show ?case
  proof (cases "n < 10")
    case True
    with 1 show ?thesis by (simp add: nat_digits_small)
  next
    case False
    have k: "1 < k"
    proof (rule ccontr)
      assume "\<not> 1 < k"
      with 1(3) have "k = 1" by simp
      with 1(2) False show False by simp
    qed
    have "n div 10 < 10 ^ (k - 1)"
      using 1(2) k by (simp add: less_mult_imp_div_less power_eq_if)
    with 1(1) [of "k - 1"] False k have "length (nat_digits (n div 10)) \<le> k - 1" by simp
    with False k show ?thesis by (simp add: nat_digits_step)
  qed
qed

lemma length_fixed2_le: "h \<le> 10000 \<Longrightarrow> length (fixed2 h) \<le> 11"
proof -
  assume "h \<le> 10000"
  then have "h div 100 < 10 ^ 3" by simp
  from length_nat_digits_le [OF this] show ?thesis by (simp add: fixed2_def)
qed

text \<open>
  C31. The Success Rate cell of every table row (line 61, \<open>%11.2f%%\<close> of
  \<open>successRate*100\<close>) is, for a finite, non-negative success rate of at most 1,
  a percentage between 0.00 and 100.00 that fills its 11-character field
  exactly and lies within half a hundredth (and the product's rounding error)
  of the rate times 100, followed by the percent sign and the row's end.
\<close>

theorem format_row_success_rate:
  assumes fin: "f64_is_finite (row_successRate row)" and pos: "\<not> f64_sign (row_successRate row)"
    and le1: "f64_valof (row_successRate row) \<le> 1"
  shows "\<exists>pre h. format_row row = pre @ '' | '' @ pad_left 11 (fixed2 h) @ ''% |'' @ [nl] \<and>
           length (pad_left 11 (fixed2 h)) = 11 \<and> h \<le> 10000 \<and>
           \<bar>real h - 10000 * f64_valof (row_successRate row)\<bar> \<le> 1 / 2 + 2 powi (- 39)"
proof -
  obtain h where h: "h \<le> 10000" and f: "fmt_f2 (f64_mul (row_successRate row) f64_hundred) = fixed2 h"
    and err: "\<bar>real h - 10000 * f64_valof (row_successRate row)\<bar> \<le> 1 / 2 + 2 powi (- 39)"
    using success_rate_fmt [OF fin pos le1] by blast
  let ?pre = "''| '' @ pad_left 11 (fmt_d (row_concurrency row)) @
     '' | '' @ pad_left 32 (fmt_f2 (row_generationSpeed row)) @
     '' | '' @ pad_left 29 (fmt_f2 (row_promptThroughput row)) @
     '' | '' @ pad_left 12 (fmt_f2 (row_minTTFT row)) @
     '' | '' @ pad_left 12 (fmt_f2 (row_maxTTFT row))"
  have "format_row row = ?pre @ '' | '' @ pad_left 11 (fixed2 h) @ ''% |'' @ [nl]"
    by (simp add: format_row_def f)
  moreover have "length (pad_left 11 (fixed2 h)) = 11"
    using length_fixed2_le [OF h] by (simp add: pad_left_def)
  ultimately show ?thesis using h err by blast
qed

theorem format_row_success_rate_witness:
  "f64_is_finite (row_successRate ex_md_row) \<and> \<not> f64_sign (row_successRate ex_md_row) \<and>
   f64_valof (row_successRate ex_md_row) \<le> 1 \<and>
   (\<exists>pre h. format_row ex_md_row = pre @ '' | '' @ pad_left 11 (fixed2 h) @ ''% |'' @ [nl] \<and>
      length (pad_left 11 (fixed2 h)) = 11 \<and> h \<le> 10000 \<and>
      \<bar>real h - 10000 * f64_valof (row_successRate ex_md_row)\<bar> \<le> 1 / 2 + 2 powi (- 39))"
proof -
  have fin: "f64_is_finite (row_successRate ex_md_row)" and pos: "\<not> f64_sign (row_successRate ex_md_row)"
    by (simp_all add: model_defs)
  have "f64_valof (row_successRate ex_md_row) = 2 powi 52 * 2 powi (- 52)"
    by (simp add: f64_valof_def ex_md_row_def ex_one_def f64_sig_def f64_scale_def)
  also have "\<dots> = 1" by (simp add: power_int_add [symmetric])
  finally have le1: "f64_valof (row_successRate ex_md_row) \<le> 1" by simp
  from format_row_success_rate [OF fin pos le1] fin pos le1 show ?thesis by blast
qed

end
