(* ===== verification/Spec2Isabelle.thy ===== *)
theory Spec2Isabelle
  imports StreamConsumer PromptSynth Catalog Progress Level Reporter MarkdownReport
begin

text \<open>
  \<^bold>\<open>A verification development for llmapibenchmark's streaming metrics
  pipeline.\<close>

  \<^bold>\<open>The program.\<close> The Go package \<^verbatim>\<open>src/internal/api\<close> sends one streaming
  chat-completion request and turns the stream into metrics
  (\<^verbatim>\<open>api_client.go\<close>: \<open>AskOpenAi\<close>, its usage reconciliation, the token estimator
  \<open>estimateTokens\<close>, \<open>GetFirstAvailableModel\<close>, \<open>AskOpenAiRandomInput\<close>), and
  synthesises random prompts (\<^verbatim>\<open>random_prompt.go\<close>). The package
  \<^verbatim>\<open>src/internal/utils\<close> (\<^verbatim>\<open>output.go\<close>) writes the reports. Data flows one way:
  prompt synthesizer, then the streaming consumer, which calls the estimator on
  every chunk and reconciles the estimate with the server's usage record at the
  end, then the (external) orchestrator, which runs many consumers concurrently
  against one shared progress bar, then the reporter.

  \<^bold>\<open>The theories.\<close>
  \<^item> \<open>Prelude\<close>: the fact collections \<open>model_defs\<close> (definitions unfolded to
    evaluate a concrete input) and \<open>run_simps\<close> (the loop equations), the
    type names \<open>go_int\<close> and \<open>seconds\<close>, the client's error type \<open>api_error\<close>,
    generic list lemmas.
  \<^item> \<open>GoUtf8\<close>: \<open>utf8.DecodeRuneInString\<close> with its error rune, the runes a
    \<open>for range\<close> loop reads, \<open>unicode.IsSpace\<close>, and \<open>utf8.EncodeRune\<close>; the
    lemmas that the runes' bytes make up the string, that a string splits into
    runes independently on each side of a byte that is not a continuation
    byte, and that decoding and encoding are inverse on valid sequences.
  \<^item> \<open>GoStrings\<close>: Go's \<open>strings.TrimSpace\<close> and \<open>Fields\<close> on the decoded runes
    with Unicode white space, as generic list functions (\<open>trim_gen\<close>,
    \<open>fields_gen\<close>) that are the byte-level ones on ASCII text; \<open>Join\<close> and
    one-byte \<open>ReplaceAll\<close>; the lemmas that trimming keeps the fields, that
    \<open>Fields\<close> inverts \<open>Join\<close> with a space and splits at any white-space rune,
    and that a blank string holds only ASCII spaces and non-ASCII bytes.
  \<^item> \<open>Float64\<close>: IEEE 754 binary64, bit-exact. The product
    \<open>float64(n) * 1.3\<close> and Go's truncating \<open>int\<close> of it (rounding of the
    exact product to a 53-bit significand, \<open>round_nat53\<close>, with its error
    bound of half a unit in the last place), and the doubles themselves as the
    record \<open>f64\<close> of their sign, exponent and fraction fields, with their value
    \<open>f64_valof\<close> and the multiplication \<open>f64_mul\<close> (nearest, ties to even,
    gradual underflow, overflow to infinity, NaN), which the report uses for
    \<open>successRate*100\<close>; the rounding \<open>f64_round\<close> is shown correct against
    the real value, normal and subnormal.
  \<^item> \<open>GoFmt\<close>: \<open>fmt\<close>'s \<open>%d\<close>, field widths and \<open>%.2f\<close> (strconv's exact
    decimal expansion rounded half to even), \<open>time\<close>'s zero-padded numbers, and a
    reader of printed numbers for the lemmas.
  \<^item> \<open>GoJson\<close>: \<open>encoding/json\<close>'s \<open>MarshalIndent\<close> byte for byte: string
    escaping with HTML escapes and invalid UTF-8 (\<open>json_str_body\<close>),
    \<open>Marshal\<close> with sorted map keys (\<open>json_marshal\<close>) and \<open>appendIndent\<close> as a
    byte loop over a scanner state (\<open>json_indent_loop\<close>); the lemmas that the
    loop yields the documented layout and that a reader with fuel gets every
    value back (\<open>json_read_marshal_indent\<close>).
  \<^item> \<open>TokenEstimator\<close>: \<open>estimateTokens\<close>. The \<open>float64\<close> expressions
    \<open>int(float64(n) * 1.3)\<close> and \<open>int(float64(n) / 3.0)\<close> are the integer
    divisions \<open>(13 * n) div 10\<close> and \<open>n div 3\<close>; the first is proved equal to the
    \<open>Float64\<close> computation for every count below \<open>2^40\<close>, the second lies in
    a branch proved dead.
  \<^item> \<open>StreamConsumer\<close>: \<open>AskOpenAi\<close>. The state record \<open>consumer_state\<close> holds
    the function's local variables and the list of \<open>bar.Add\<close> arguments; the
    loop body is \<open>process_event\<close> (built from \<open>record_usage\<close>,
    \<open>track_first_token\<close>, \<open>accumulate_chunk\<close>), the loop \<open>stream_loop\<close>, the
    end \<open>finalize_usage\<close>. The OpenAI client is a function from the request
    (\<open>build_request\<close>) to the stream: the events in order, each with the
    elapsed time at which the loop reads it, and the final \<open>stream.Err()\<close>. The
    same run is the step relation \<open>consumer_step\<close> over the phases Start,
    Streaming, Finalized and Failed of the spec, with its reachable phases.
    An abstract specification (\<open>spec_content\<close>, \<open>spec_adds\<close>,
    \<open>spec_first_token\<close>, \<open>spec_usage\<close>, \<open>spec_metrics\<close>) says what a run
    computes without the loop.
  \<^item> \<open>PromptSynth\<close>: \<open>generateRandomWord\<close>, \<open>generateRandomPhrase\<close>. The random
    source is an interface (\<open>rng\<close>: \<open>rand.Seed\<close> and \<open>rand.Intn\<close>) with the
    contract \<open>intn_ok\<close>; the clock is an input; the panic of \<open>make\<close> on a
    negative length is a value.
  \<^item> \<open>Catalog\<close>: \<open>GetFirstAvailableModel\<close> over the answer of the model listing.
  \<^item> \<open>Progress\<close>: the shared progress bar (a library type, modelled from the
    spec as a counter with \<open>Add\<close>) and the interleavings of the \<open>Add\<close> calls of
    concurrent exchanges.
  \<^item> \<open>Reporter\<close>: model-name sanitisation, the Markdown and JSON file names
    (with \<open>%d\<close> and the time layout written out) and \<open>SaveModelOutputs\<close> with
    its three error paths and the bytes it writes (the archive map through
    \<open>GoJson\<close>, the time through \<open>time.Time.MarshalJSON\<close>, \<open>rfc3339_nano\<close>);
    the file system is an input.
  \<^item> \<open>MarkdownReport\<close>: \<open>PrintBenchmarkHeader\<close> as the bytes it prints and
    \<open>SaveResultsToMD\<close> whole: the rows as interface values decoded with their
    index and type-assertion panics, the \<open>WriteString\<close> calls in order with
    their results ignored, \<open>os.Create\<close>'s error as an input.
  \<^item> \<open>Level\<close>: one concurrency level as a transition system, modelled from
    the spec since the orchestrator is not in the sources. A state
    (\<open>level_state\<close>) holds the phase of every exchange and the shared bar; a
    step (\<open>level_step\<close>) is one \<open>consumer_step\<close> of one exchange chosen by
    the scheduler, labelled with the \<open>bar.Add\<close> calls it makes (at most one),
    which the bar receives in that step; a run (\<open>level_run\<close>) is a schedule
    with its calls in order.
  \<^item> This theory: \<open>AskOpenAiRandomInput\<close> (prompt synthesizer feeding the
    consumer).

  \<^bold>\<open>What is proved.\<close> On success \<open>AskOpenAi\<close> computes exactly the abstract
  specification (C1); with a bar and non-negative server counts the bar's
  increments sum to the completion count returned (C2); on a stream error no
  metrics are returned but the increments already made remain (C3); the time to
  first token is the time of the first visible delta and is never overwritten
  (C4, C5, over the step relation, by rule induction on reachable phases). The
  estimator is 0 exactly on blank chunks and at least 1 otherwise, its
  character-count branch is dead, it is monotone in the word count and bounded
  by the chunk's length (C6 to C9), it equals the source's IEEE 754 computation
  for every chunk of fewer than \<open>2^40\<close> words (C10), and it splits words at
  every Unicode white-space rune (C30). Prompts are the fixed prefix and exactly
  \<open>n\<close> words of 3 to 10 lowercase letters, recovered by \<open>Fields\<close>, and a
  negative count panics (C11 to C13); the estimator counts such a prompt as
  \<open>n + 7\<close> words and \<open>AskOpenAiRandomInput\<close> sends it (C14, C15). In every
  schedule of a concurrency level, once all exchanges have ended each has the
  outcome it has when run alone, the bar's calls are an interleaving of the
  exchanges' own, and the bar has advanced by their sum, which for well-behaved
  exchanges is the sum of the completion counts they return (C16); in every
  state a level reaches, each exchange's calls add up to what the bar should show
  for it, its running estimate while it streams and its completion count once it
  has finished, and the bar shows their sum (C17, by rule induction over runs).
  The reporter's names have no path separator, keep archives inside
  \<open>model_outputs\<close> and are unchanged by a second sanitisation, and
  \<open>SaveModelOutputs\<close> fails exactly on its three error paths (C18 to C20).
  \<open>GetFirstAvailableModel\<close> meets its contract (C21). A last usage record with
  completion count 0 makes \<open>AskOpenAi\<close> fall back to the estimate whatever
  earlier records said (C22), and one with a negative count is returned as it
  is while the bar keeps the estimate (C23). The archive is named on the
  timestamp's local clock (C24). \<open>SaveResultsToMD\<close> writes the metadata, header
  and one line per row and reports the file (C25); a malformed row panics after
  the earlier rows are written (C26); a failed write is never reported (C27);
  rows that fit their columns align with the header (C28); the console header
  and the file carry the same metadata (C29). The Success Rate cell of every row
  holds, for a rate in \<open>[0, 1]\<close>, a percentage between 0.00 and 100.00 that
  fills its field, within half a hundredth and \<open>2^-39\<close> of its exact value
  (C31, through \<open>Float64.f64_mul_correct\<close>, the correct rounding of the
  product, and \<open>GoFmt.f64_hundredths_error\<close>, the rounding of \<open>%.2f\<close>). The
  archive file \<open>SaveModelOutputs\<close> writes reads back as its five fields in
  sorted key order, each string as written when it is valid UTF-8 and with
  U+FFFD for each invalid byte otherwise (C32, through
  \<open>GoJson.json_read_marshal_indent\<close>). The protocol's termination and the
  agreement of \<open>consumer_step\<close> with \<open>AskOpenAi\<close> are lemmas
  (\<open>StreamConsumer.streaming_run\<close>, \<open>Level.reachable_outcome\<close>) that the
  properties use, not properties of their own: both hold by the shape of the
  model. The banner's double-encoded colon is \<open>MarkdownReport.banner_time_label\<close>.

  \<^bold>\<open>Bounds and fuel.\<close> Every loop of the sources is a loop over a finite list
  (events, letters, words, digits), so every definition is structural
  recursion or a \<open>fun\<close> with a termination proof (the string encoder and the
  rune decoder by the length of what remains), and no fuel is needed. The JSON
  reader, which is not code of the program, takes fuel, one unit per value and
  per element; \<open>json_read\<close> gives it the length of the text, which
  \<open>GoJson.jsize_le_layout\<close> shows is always enough. Integers are unbounded: the estimates are bounded by the length
  of the text received, far from \<open>2^63\<close>; the server's usage counts are
  \<open>int64\<close> values of the SDK, which the code converts to \<open>int\<close> without
  change on a 64-bit platform and does not bound. The one computation on them
  is the difference with the estimate on line 89, which wraps in Go only for a
  count within the estimate of \<open>-2^63\<close>; the model computes it without the
  wrap-around and leaves such counts out. The float equivalence is stated below
  \<open>2^40\<close> words, where the rounding error of the product (at most
  \<open>2^39\<close> units of \<open>2^-52\<close>) stays far below the distance \<open>1/10\<close> from
  \<open>1.3 * n\<close> to the next integer; sampled real doubles first disagree with the
  integer model near \<open>2^49\<close> words, and \<open>2^40\<close> words are over a terabyte.

  \<^bold>\<open>Not modelled.\<close> The HTTP transport and the OpenAI SDK (an input stream
  instead); the orchestrator beyond one level's schedules of its exchanges
  (\<open>Level\<close>): the loop over concurrency levels and the collection of results; \<open>log\<close>'s timestamp prefix (the log lines are their messages);
  the ASCII fast paths and the backward decoding inside \<open>strings\<close>, which
  compute what the package documents and the model defines; the
  arithmetic of the orchestrator that produces the result rows' doubles,
  which the report receives as inputs; a nil \<open>[]string\<close> of outputs, which
  \<open>encoding/json\<close> writes as \<open>null\<close> (the model's lists are the non-nil
  slices); what \<open>os.WriteFile\<close> leaves behind when it fails.

  \<^bold>\<open>Plan.\<close> The components were modelled in the order of their weight in
  the spec: the streaming consumer and its reconciliation, the estimator, the
  synthesizer, the catalog, the shared bar, the reporter, then the \<open>float64\<close>
  product of the estimator (\<open>Float64\<close>), then the Markdown report and the
  console header with binary64 values and \<open>%.2f\<close> (\<open>GoFmt\<close>,
  \<open>MarkdownReport\<close>), then Unicode white space (\<open>GoUtf8\<close>), then the bytes of
  the JSON archive (\<open>GoJson\<close>), then one concurrency level as a
  transition system over the consumer's step relation (\<open>Level\<close>). Every
  line of the three source files but the package clauses and imports is the
  source of a definition. What remains would restate what is there: a monadic
  rendering of \<open>AskOpenAi\<close> in \<open>State_Monad\<close> would be \<open>stream_loop\<close> again,
  and the result rows' arithmetic is not given by the spec.
\<close>

section \<open>Random-input requests\<close>

text \<open>
  \<open>AskOpenAiRandomInput\<close> (\<^verbatim>\<open>api_client.go\<close> lines 99--102): a synthesised prompt
  sent through \<open>AskOpenAi\<close>. A panic of the synthesizer is the panic of the call.
\<close>

definition askOpenAiRandomInput ::
  "'s rng \<Rightarrow> 's \<Rightarrow> int \<Rightarrow> (chat_request \<Rightarrow> stream) \<Rightarrow> string \<Rightarrow> go_int \<Rightarrow> go_int \<Rightarrow> bool \<Rightarrow>
   go_panic + (api_error + run_metrics) \<times> go_int list" where
  "askOpenAiRandomInput r s now server model numWords maxTokens has_bar =
     (case generateRandomPhrase r s now numWords of
        Inl p \<Rightarrow> Inl p
      | Inr (prompt, _) \<Rightarrow> Inr (askOpenAi server model prompt maxTokens has_bar))"

declare askOpenAiRandomInput_def [model_defs]

section \<open>Lemmas\<close>

lemma prompt_prefix_split:
  "prompt_prefix = ''Please reply back the following section unchanged:'' @ [CHR '' '']"
  by (simp add: prompt_prefix_def)

lemma Fields_prompt_prefix_head:
  "Fields ''Please reply back the following section unchanged:'' =
     [''Please'', ''reply'', ''back'', ''the'', ''following'', ''section'', ''unchanged:'']"
  by (subst Fields_ascii) (simp_all add: ascii_def byte_def is_space_def)

lemma Fields_prompt:
  "list_all space_free_word ws \<Longrightarrow>
   Fields (prompt_prefix @ join ws '' '') =
     [''Please'', ''reply'', ''back'', ''the'', ''following'', ''section'', ''unchanged:''] @ ws"
proof -
  assume ws: "list_all space_free_word ws"
  have sp: "is_space (CHR '' '')" by (simp add: is_space_def)
  have "Fields (prompt_prefix @ join ws '' '') =
      Fields (''Please reply back the following section unchanged:'' @ CHR '' '' # join ws '' '')"
    by (simp add: prompt_prefix_split)
  also have "\<dots> = Fields ''Please reply back the following section unchanged:'' @ ws"
    by (simp only: fields_append_space_sep [OF sp] fields_join_space [OF ws])
  finally show ?thesis by (simp only: Fields_prompt_prefix_head)
qed

section \<open>Properties\<close>

text \<open>
  C14. The token estimator applied to a synthesised prompt of \<open>n \<ge> 0\<close> words
  counts the seven words of the fixed prefix and the \<open>n\<close> generated words:
  the estimate is \<open>int(1.3 * (n + 7))\<close>.
\<close>

theorem random_prompt_estimate:
  "intn_ok r \<Longrightarrow> 0 \<le> n \<Longrightarrow> generateRandomPhrase r s now n = Inr (p, s') \<Longrightarrow>
   estimateTokens p = tokens_for_words (nat n + 7)"
proof -
  assume ok: "intn_ok r" and n: "0 \<le> n" and gen: "generateRandomPhrase r s now n = Inr (p, s')"
  let ?ws = "fst (random_words r (nat n) (rng_seed r s now))"
  from gen generateRandomPhrase_words [OF n, of r s now] have p: "p = prompt_prefix @ join ?ws '' ''"
    by simp
  have "list_all space_free_word ?ws"
    using random_words_valid_ok [OF ok] by (simp add: list_all_iff valid_word_space_free)
  then have f: "Fields p = [''Please'', ''reply'', ''back'', ''the'', ''following'', ''section'',
      ''unchanged:''] @ ?ws"
    by (simp add: p Fields_prompt)
  then have "trim_space p \<noteq> []" by (simp flip: fields_nil_iff_trim)
  then have "estimateTokens p = max 1 (tokens_for_words (length (Fields p)))"
    by (rule estimateTokens_nonblank)
  moreover have "length (Fields p) = nat n + 7" using f by (simp add: random_words_length)
  moreover have "1 \<le> tokens_for_words (nat n + 7)"
  proof -
    have "10 div 10 \<le> (13 * int (nat n + 7)) div (10::int)" by (rule zdiv_mono1) simp_all
    then show ?thesis by (simp add: tokens_for_words_def)
  qed
  ultimately show ?thesis by simp
qed

theorem random_prompt_estimate_witness:
  "generateRandomPhrase lcg 0 0 0 = Inr (prompt_prefix, 0) \<and> estimateTokens prompt_prefix = 9"
proof -
  have g: "generateRandomPhrase lcg 0 0 0 = Inr (prompt_prefix, 0)" by (simp add: model_defs)
  from random_prompt_estimate [OF intn_ok_lcg _ g] g show ?thesis
    by (simp add: tokens_for_words_def)
qed

text \<open>
  C15. \<open>AskOpenAiRandomInput\<close> with \<open>n \<ge> 0\<close> words sends \<open>AskOpenAi\<close> a prompt made
  of the fixed prefix and exactly \<open>n\<close> valid words joined by spaces, and returns
  what \<open>AskOpenAi\<close> returns for it; with \<open>n < 0\<close> it panics before any request.
\<close>

theorem askOpenAiRandomInput_prompt:
  "(0 \<le> n \<and> intn_ok r \<longrightarrow>
     (\<exists>ws. askOpenAiRandomInput r s now server model n maxTokens hb =
             Inr (askOpenAi server model (prompt_prefix @ join ws '' '') maxTokens hb) \<and>
           int (length ws) = n \<and> list_all valid_word ws)) \<and>
   (n < 0 \<longrightarrow> askOpenAiRandomInput r s now server model n maxTokens hb = Inl MakeSliceLenOutOfRange)"
proof (intro conjI impI)
  assume "0 \<le> n \<and> intn_ok r"
  then have n: "0 \<le> n" and ok: "intn_ok r" by simp_all
  let ?ws = "fst (random_words r (nat n) (rng_seed r s now))"
  have "askOpenAiRandomInput r s now server model n maxTokens hb =
      Inr (askOpenAi server model (prompt_prefix @ join ?ws '' '') maxTokens hb)"
    by (simp add: askOpenAiRandomInput_def generateRandomPhrase_words [OF n])
  moreover have "int (length ?ws) = n" using n by (simp add: random_words_length)
  moreover have "list_all valid_word ?ws" by (rule random_words_valid_ok [OF ok])
  ultimately show "\<exists>ws. askOpenAiRandomInput r s now server model n maxTokens hb =
             Inr (askOpenAi server model (prompt_prefix @ join ws '' '') maxTokens hb) \<and>
           int (length ws) = n \<and> list_all valid_word ws" by blast
next
  assume "n < 0"
  then show "askOpenAiRandomInput r s now server model n maxTokens hb = Inl MakeSliceLenOutOfRange"
    by (simp add: askOpenAiRandomInput_def generateRandomPhrase_def)
qed

theorem askOpenAiRandomInput_prompt_witness:
  "(\<exists>ws. askOpenAiRandomInput lcg 0 0 (\<lambda>_. ex_hello_world) ''gpt'' 0 16 True =
          Inr (askOpenAi (\<lambda>_. ex_hello_world) ''gpt'' (prompt_prefix @ join ws '' '') 16 True) \<and>
        int (length ws) = 0 \<and> list_all valid_word ws) \<and>
   askOpenAiRandomInput lcg 0 0 (\<lambda>_. ex_hello_world) ''gpt'' (-1) 16 True = Inl MakeSliceLenOutOfRange"
  using askOpenAiRandomInput_prompt [of 0 lcg 0 0 "\<lambda>_. ex_hello_world" "''gpt''" 16 True]
    askOpenAiRandomInput_prompt [of "-1" lcg 0 0 "\<lambda>_. ex_hello_world" "''gpt''" 16 True]
    intn_ok_lcg
  by simp

end
